theory Spec2Isabelle
  imports Main "HOL-Library.Sublist" "HOL-Library.AList"
begin

unbundle bit_operations_syntax

section \<open>WProxy: a forward HTTP/HTTPS proxy (main.go, the variant with authentication)\<close>

text \<open>
  The program is one Go file: a request handler that checks an optional proxy credential
  (\<^verbatim>\<open>checkAuth\<close>), then serves CONNECT by a raw tunnel (\<^verbatim>\<open>handleTunneling\<close>,
  \<^verbatim>\<open>transfer\<close>) and every other method by forwarding (\<^verbatim>\<open>handleHTTP\<close>,
  \<^verbatim>\<open>copyHeader\<close>). The functions of the file are embedded one by one below. What they
  call in Go's standard library is modelled first, each function under its Go name: strings
  are byte lists, Go's \<^verbatim>\<open>error\<close> results are sums or options,
  the response writer and the connections are explicit state, and the calls that reach the
  network (dialing, the round trip, hijacking) take their results from an environment and are
  recorded in a trace.
\<close>

subsection \<open>Package strings\<close>

text \<open>\<^verbatim>\<open>strings.Cut\<close>: the text before and after the first occurrence of \<open>sep\<close>.\<close>

fun strings_Cut :: "string \<Rightarrow> string \<Rightarrow> (string \<times> string) option" where
  "strings_Cut [] sep = (if sep = [] then Some ([], []) else None)"
| "strings_Cut (x # xs) sep =
     (if prefix sep (x # xs) then Some ([], drop (length sep) (x # xs))
      else map_option (\<lambda>(before, after). (x # before, after)) (strings_Cut xs sep))"

text \<open>
  \<^verbatim>\<open>strings.SplitN(s, sep, n)\<close> for a non-empty separator and \<open>n \<ge> 0\<close> (the source
  calls it with \<^verbatim>\<open>" "\<close> and 2): at most \<open>n\<close> pieces, the last one the unsplit rest.
\<close>

fun strings_SplitN :: "string \<Rightarrow> string \<Rightarrow> nat \<Rightarrow> string list" where
  "strings_SplitN s sep 0 = []"
| "strings_SplitN s sep (Suc 0) = [s]"
| "strings_SplitN s sep (Suc (Suc n)) =
     (case strings_Cut s sep of
        None \<Rightarrow> [s]
      | Some (before, after) \<Rightarrow> before # strings_SplitN after sep (Suc n))"

fun strings_Join :: "string list \<Rightarrow> string \<Rightarrow> string" where
  "strings_Join [] sep = []"
| "strings_Join [x] sep = x"
| "strings_Join (x # y # ys) sep = x @ sep @ strings_Join (y # ys) sep"

fun IndexByte :: "string \<Rightarrow> char \<Rightarrow> nat option" where
  "IndexByte [] c = None"
| "IndexByte (x # xs) c = (if x = c then Some 0 else map_option Suc (IndexByte xs c))"

definition LastIndexByte :: "string \<Rightarrow> char \<Rightarrow> nat option" where
  "LastIndexByte s c = map_option (\<lambda>j. length s - 1 - j) (IndexByte (rev s) c)"

subsection \<open>Package encoding/base64: StdEncoding\<close>

definition encodeStd :: string where
  "encodeStd = ''ABCDEFGHIJKLMNOPQRSTUVWXYZabcdefghijklmnopqrstuvwxyz0123456789+/''"

definition padChar :: char where
  "padChar = CHR ''=''"

text \<open>\<^verbatim>\<open>enc.encode[i]\<close> and \<^verbatim>\<open>enc.decodeMap[c]\<close> (\<open>None\<close> for the entry 0xFF).\<close>

definition encode :: "nat \<Rightarrow> char" where
  "encode i = encodeStd ! i"

definition decodeMap :: "char \<Rightarrow> nat option" where
  "decodeMap c = IndexByte encodeStd c"

definition uint :: "char \<Rightarrow> nat" where
  "uint c = of_char c"

definition byte :: "nat \<Rightarrow> char" where
  "byte n = char_of n"

text \<open>
  \<^verbatim>\<open>EncodeToString\<close>: three bytes give four characters; a rest of one or two bytes is
  padded with \<^verbatim>\<open>=\<close>.
\<close>

fun EncodeToString :: "string \<Rightarrow> string" where
  "EncodeToString (a # b # c # rest) =
     (let val = push_bit 16 (uint a) OR push_bit 8 (uint b) OR uint c
      in encode (drop_bit 18 val AND 0x3F) # encode (drop_bit 12 val AND 0x3F)
         # encode (drop_bit 6 val AND 0x3F) # encode (val AND 0x3F) # EncodeToString rest)"
| "EncodeToString [a, b] =
     (let val = push_bit 16 (uint a) OR push_bit 8 (uint b)
      in [encode (drop_bit 18 val AND 0x3F), encode (drop_bit 12 val AND 0x3F),
          encode (drop_bit 6 val AND 0x3F), padChar])"
| "EncodeToString [a] =
     (let val = push_bit 16 (uint a)
      in [encode (drop_bit 18 val AND 0x3F), encode (drop_bit 12 val AND 0x3F),
          padChar, padChar])"
| "EncodeToString [] = []"

text \<open>
  \<^verbatim>\<open>decodeQuantum\<close>: four 6-bit values give three bytes; after padding only the first
  one or two bytes are kept. The encoding is not strict, so the unused low bits of a padded
  quantum are not checked.
\<close>

definition quantum :: "nat \<Rightarrow> nat \<Rightarrow> nat \<Rightarrow> nat \<Rightarrow> string" where
  "quantum x0 x1 x2 x3 =
     (let val = push_bit 18 x0 OR push_bit 12 x1 OR push_bit 6 x2 OR x3
      in [byte (drop_bit 16 val), byte (drop_bit 8 val), byte val])"

text \<open>
  Decoding of an input without line breaks; \<open>None\<close> is Go's \<^verbatim>\<open>CorruptInputError\<close>:
  a character outside the alphabet, padding in the first two places of a quantum, a single
  \<^verbatim>\<open>=\<close> where two are due, anything after the padding, or an input that ends inside a
  quantum (StdEncoding requires the padding).
\<close>

fun decode :: "string \<Rightarrow> string option" where
  "decode [] = Some []"
| "decode (a # b # c # d # rest) =
     (case (decodeMap a, decodeMap b) of
        (Some x0, Some x1) \<Rightarrow>
          if c = padChar then
            (if d = padChar \<and> rest = [] then Some (take 1 (quantum x0 x1 0 0)) else None)
          else
            (case decodeMap c of
               None \<Rightarrow> None
             | Some x2 \<Rightarrow>
                 if d = padChar then
                   (if rest = [] then Some (take 2 (quantum x0 x1 x2 0)) else None)
                 else
                   (case decodeMap d of
                      None \<Rightarrow> None
                    | Some x3 \<Rightarrow> map_option (\<lambda>r. quantum x0 x1 x2 x3 @ r) (decode rest)))
      | _ \<Rightarrow> None)"
| "decode _ = None"

text \<open>\<^verbatim>\<open>DecodeString\<close> skips every carriage return and line feed of its input.\<close>

definition DecodeString :: "string \<Rightarrow> string option" where
  "DecodeString s = decode (filter (\<lambda>c. c \<noteq> CHR 0x0A \<and> c \<noteq> CHR 0x0D) s)"

subsection \<open>Package net/textproto and http.Header\<close>

definition isLower :: "char \<Rightarrow> bool" where
  "isLower c = (97 \<le> (of_char c :: nat) \<and> (of_char c :: nat) \<le> 122)"

definition isUpper :: "char \<Rightarrow> bool" where
  "isUpper c = (65 \<le> (of_char c :: nat) \<and> (of_char c :: nat) \<le> 90)"

definition isDigit :: "char \<Rightarrow> bool" where
  "isDigit c = (48 \<le> (of_char c :: nat) \<and> (of_char c :: nat) \<le> 57)"

text \<open>The token characters of RFC 7230.\<close>

definition validHeaderFieldByte :: "char \<Rightarrow> bool" where
  "validHeaderFieldByte c =
     (isLower c \<or> isUpper c \<or> isDigit c \<or> c \<in> set ''!#$%&*+-.^_`|~'' \<or> c = CHR 0x27)"

text \<open>
  The loop of \<^verbatim>\<open>canonicalMIMEHeaderKey\<close>: upper case at the start and after each
  hyphen, lower case elsewhere (\<^verbatim>\<open>toLower = 'a' - 'A'\<close>).
\<close>

fun canonicalize :: "bool \<Rightarrow> string \<Rightarrow> string" where
  "canonicalize upper [] = []"
| "canonicalize upper (c # cs) =
     (let c' = (if upper \<and> isLower c then char_of (of_char c - (32::nat))
                else if \<not> upper \<and> isUpper c then char_of (of_char c + (32::nat))
                else c)
      in c' # canonicalize (c' = CHR ''-'') cs)"

text \<open>A key with a byte that is not a token character is returned as it is.\<close>

definition CanonicalMIMEHeaderKey :: "string \<Rightarrow> string" where
  "CanonicalMIMEHeaderKey s = (if list_all validHeaderFieldByte s then canonicalize True s else s)"

text \<open>
  \<^verbatim>\<open>http.Header\<close> is \<^verbatim>\<open>map[string][]string\<close>. It is an association list here, the
  keys distinct; the order of the list stands for the order in which \<^verbatim>\<open>range\<close> visits
  the map, which Go leaves open. \<open>map_of h k\<close> is the plain index expression \<^verbatim>\<open>h[k]\<close>.
\<close>

type_synonym Header = "(string \<times> string list) list"

definition Header_Get :: "Header \<Rightarrow> string \<Rightarrow> string" where
  "Header_Get h key =
     (case map_of h (CanonicalMIMEHeaderKey key) of
        None \<Rightarrow> []
      | Some v \<Rightarrow> (case v of [] \<Rightarrow> [] | x # _ \<Rightarrow> x))"

definition Header_Set :: "Header \<Rightarrow> string \<Rightarrow> string \<Rightarrow> Header" where
  "Header_Set h key v = AList.update (CanonicalMIMEHeaderKey key) [v] h"

definition Header_Add :: "Header \<Rightarrow> string \<Rightarrow> string \<Rightarrow> Header" where
  "Header_Add h key v =
     (let k = CanonicalMIMEHeaderKey key
      in AList.update k ((case map_of h k of None \<Rightarrow> [] | Some vs \<Rightarrow> vs) @ [v]) h)"

definition Header_Del :: "Header \<Rightarrow> string \<Rightarrow> Header" where
  "Header_Del h key = AList.delete (CanonicalMIMEHeaderKey key) h"

subsection \<open>Package net\<close>

datatype AddrError =
    missingPort | tooManyColons | missingBracket | unexpectedOpenBracket | unexpectedCloseBracket

text \<open>
  \<^verbatim>\<open>net.SplitHostPort\<close>: the port starts after the last colon; a host in square
  brackets may contain colons, any other host may not.
\<close>

definition net_SplitHostPort :: "string \<Rightarrow> AddrError + (string \<times> string)" where
  "net_SplitHostPort hostport =
     (case LastIndexByte hostport CHR '':'' of
        None \<Rightarrow> Inl missingPort
      | Some i \<Rightarrow>
          (let finish = (\<lambda>host j k.
                 if IndexByte (drop j hostport) CHR ''['' \<noteq> None then Inl unexpectedOpenBracket
                 else if IndexByte (drop k hostport) CHR '']'' \<noteq> None then Inl unexpectedCloseBracket
                 else Inr (host, drop (i + 1) hostport))
           in if hostport ! 0 = CHR ''['' then
                (case IndexByte hostport CHR '']'' of
                   None \<Rightarrow> Inl missingBracket
                 | Some e \<Rightarrow>
                     if e + 1 = length hostport then Inl missingPort
                     else if e + 1 = i then finish (take (e - 1) (drop 1 hostport)) 1 (e + 1)
                     else if hostport ! (e + 1) = CHR '':'' then Inl tooManyColons
                     else Inl missingPort)
              else
                (let host = take i hostport
                 in if IndexByte host CHR '':'' \<noteq> None then Inl tooManyColons
                    else finish host 0 0)))"

text \<open>A connection (\<^verbatim>\<open>net.Conn\<close>) is known by its identity; \<open>None\<close> is Go's nil.\<close>

datatype Conn = Conn nat

subsection \<open>Package net/http: requests, responses, the response writer\<close>

record Request =
  Method :: string
  URL :: string
  Host :: string
  RemoteAddr :: string
  Header :: Header
  reqBody :: string

text \<open>
  A response as \<^verbatim>\<open>RoundTrip\<close> returns it. \<open>Body\<close> is the byte sequence the body
  stream delivers.
\<close>

record Response =
  StatusCode :: nat
  respHeader :: Header
  Body :: string

abbreviation StatusOK :: nat where "StatusOK \<equiv> 200"
abbreviation StatusProxyAuthRequired :: nat where "StatusProxyAuthRequired \<equiv> 407"
abbreviation StatusInternalServerError :: nat where "StatusInternalServerError \<equiv> 500"
abbreviation StatusServiceUnavailable :: nat where "StatusServiceUnavailable \<equiv> 503"

text \<open>
  The state of an \<^verbatim>\<open>http.ResponseWriter\<close>, as the writer of Go's HTTP/1 server keeps it:
  \<^item> \<open>handlerHeader\<close> is the map that \<^verbatim>\<open>w.Header()\<close> hands to the handler;
  \<^item> \<^verbatim>\<open>WriteHeader\<close> panics for a status code below 100 or above 999; it sends an
    informational code (1xx other than 101) at once, with the headers of the moment, and
    stays ready for the final code (\<open>informational\<close>); the first final code fixes the
    status and the headers of the handler that go to the client (\<open>status\<close>,
    \<open>sentHeader\<close>), and a later call is superfluous and changes nothing;
  \<^item> \<^verbatim>\<open>Write\<close> appends to the body, after an implicit \<^verbatim>\<open>WriteHeader(200)\<close> when no
    header was written yet; for a status that allows no body (1xx, 204, 304) it returns
    \<^verbatim>\<open>ErrBodyNotAllowed\<close> and appends nothing. \<open>written\<close> holds the bytes that
    \<^verbatim>\<open>Write\<close> accepted;
  \<^item> \<open>hijacker\<close> is \<open>None\<close> when the writer does not implement \<^verbatim>\<open>http.Hijacker\<close>,
    and otherwise holds what \<^verbatim>\<open>Hijack()\<close> returns: an error text or the client connection;
  \<^item> once hijacked, the writer ignores \<^verbatim>\<open>WriteHeader\<close> and \<^verbatim>\<open>Write\<close>;
  \<^item> \<open>panicked\<close> holds the panic of a call on the writer. A panic unwinds the handler,
    so no later call of the handler reaches the writer: the calls below leave a writer
    that has panicked as it is.
\<close>

datatype panic = invalid_WriteHeader_code nat

record ResponseWriter =
  handlerHeader :: Header
  wroteHeader :: bool
  status :: nat
  sentHeader :: Header
  written :: string
  hijacker :: "(string + Conn) option"
  hijacked :: bool
  informational :: "(nat \<times> Header) list"
  panicked :: "panic option"

text \<open>\<^verbatim>\<open>checkWriteHeaderCode\<close> panics unless the code has three digits.\<close>

definition checkWriteHeaderCode :: "nat \<Rightarrow> panic option" where
  "checkWriteHeaderCode code =
     (if code < 100 \<or> 999 < code then Some (invalid_WriteHeader_code code) else None)"

definition bodyAllowedForStatus :: "nat \<Rightarrow> bool" where
  "bodyAllowedForStatus code =
     (if 100 \<le> code \<and> code \<le> 199 then False
      else if code = 204 then False
      else if code = 304 then False
      else True)"

definition WriteHeader :: "ResponseWriter \<Rightarrow> nat \<Rightarrow> ResponseWriter" where
  "WriteHeader w code =
     (if panicked w \<noteq> None then w
      else if hijacked w then w
      else if wroteHeader w then w
      else if checkWriteHeaderCode code \<noteq> None then w\<lparr>panicked := checkWriteHeaderCode code\<rparr>
      else if 100 \<le> code \<and> code \<le> 199 \<and> code \<noteq> 101 then
        w\<lparr>informational := informational w @ [(code, handlerHeader w)]\<rparr>
      else w\<lparr>wroteHeader := True, status := code, sentHeader := handlerHeader w\<rparr>)"

definition Write :: "ResponseWriter \<Rightarrow> string \<Rightarrow> ResponseWriter" where
  "Write w data =
     (if panicked w \<noteq> None then w
      else if hijacked w then w
      else (let w1 = (if wroteHeader w then w else WriteHeader w StatusOK)
            in if data = [] then w1
               else if \<not> bodyAllowedForStatus (status w1) then w1
               else w1\<lparr>written := written w1 @ data\<rparr>))"

text \<open>\<^verbatim>\<open>io.Copy(w, body)\<close>: an empty stream causes no \<^verbatim>\<open>Write\<close>.\<close>

definition io_Copy :: "ResponseWriter \<Rightarrow> string \<Rightarrow> ResponseWriter" where
  "io_Copy w src = (if src = [] then w else Write w src)"

definition Hijack :: "ResponseWriter \<Rightarrow> ResponseWriter \<times> (string + Conn)" where
  "Hijack w =
     (case hijacker w of
        Some (Inr conn) \<Rightarrow> (w\<lparr>hijacked := True\<rparr>, Inr conn)
      | Some (Inl err) \<Rightarrow> (w, Inl err)
      | None \<Rightarrow> (w, Inl ''not a Hijacker''))"

text \<open>
  \<^verbatim>\<open>http.Error\<close>: sets the headers of a plain-text reply, writes the status code, and
  prints the message with \<^verbatim>\<open>fmt.Fprintln\<close>, which ends it with a line feed.
\<close>

definition http_Error :: "ResponseWriter \<Rightarrow> string \<Rightarrow> nat \<Rightarrow> ResponseWriter" where
  "http_Error w error code =
     (let h = Header_Del (handlerHeader w) ''Content-Length'';
          h = Header_Set h ''Content-Type'' ''text/plain; charset=utf-8'';
          h = Header_Set h ''X-Content-Type-Options'' ''nosniff'';
          w = WriteHeader (w\<lparr>handlerHeader := h\<rparr>) code
      in Write w (error @ [CHR 0x0A]))"

subsection \<open>The environment and the trace of a request\<close>

text \<open>
  What the network answers: the result of dialing an address and of a round trip, each an
  error text (\<^verbatim>\<open>err.Error()\<close>) or a value.
\<close>

record env =
  net_DialTimeout :: "string \<Rightarrow> string + Conn"
  RoundTrip :: "Request \<Rightarrow> string + Response"

text \<open>
  What the handler does besides writing the response, in order: log lines, the dial with its
  network, address and timeout in seconds, the request given to \<^verbatim>\<open>RoundTrip\<close>, the
  hijack, each \<^verbatim>\<open>go transfer(destination, source)\<close>, and the closing of a response body.
\<close>

datatype effect =
    Printf string
  | Dial string string nat
  | Forward Request
  | Hijack_call
  | Go_transfer "Conn option" "Conn option"
  | Body_Close

record outcome =
  writer :: ResponseWriter
  trace :: "effect list"

subsection \<open>main.go\<close>

record config =
  Addr :: string
  Port :: string
  Auth :: string
  TProxy :: bool
  Debug :: bool

text \<open>The debug line of both handlers.\<close>

definition received :: "Request \<Rightarrow> effect" where
  "received r =
     Printf (''Received request '' @ Method r @ '' '' @ Host r @ '' '' @ RemoteAddr r @ [CHR 0x0A])"

definition handleTunneling :: "config \<Rightarrow> env \<Rightarrow> ResponseWriter \<Rightarrow> Request \<Rightarrow> outcome" where
  "handleTunneling Cfg e w r =
     (let t = (if Debug Cfg then [received r] else []) @ [Dial ''tcp'' (Host r) 10]
      in case net_DialTimeout e (Host r) of
           Inl err \<Rightarrow> \<lparr>writer = http_Error w err StatusServiceUnavailable, trace = t\<rparr>
         | Inr destConn \<Rightarrow>
             (let w = WriteHeader w StatusOK
              in if hijacker w = None then
                   \<lparr>writer = http_Error w ''Hijacking not supported'' StatusInternalServerError,
                    trace = t\<rparr>
                 else
                   (let (w, res) = Hijack w;
                        (w, clientConn) =
                          (case res of
                             Inl err \<Rightarrow> (http_Error w err StatusServiceUnavailable, None)
                           | Inr conn \<Rightarrow> (w, Some conn))
                    in \<lparr>writer = w,
                        trace = t @ [Hijack_call,
                                     Go_transfer (Some destConn) clientConn,
                                     Go_transfer clientConn (Some destConn)]\<rparr>)))"

definition copyHeader :: "Header \<Rightarrow> Header \<Rightarrow> Header" where
  "copyHeader dst src = fold (\<lambda>(k, vv) dst. fold (\<lambda>v dst. Header_Add dst k v) vv dst) src dst"

definition handleHTTP :: "config \<Rightarrow> env \<Rightarrow> ResponseWriter \<Rightarrow> Request \<Rightarrow> outcome" where
  "handleHTTP Cfg e w req =
     (let t = (if Debug Cfg then [received req] else []);
          req =
            (if TProxy Cfg then
               (case net_SplitHostPort (RemoteAddr req) of
                  Inr (clientIP, port) \<Rightarrow>
                    (let clientIP =
                           (case map_of (Header req) ''X-Forwarded-For'' of
                              Some v \<Rightarrow> strings_Join v '', '' @ '', '' @ clientIP
                            | None \<Rightarrow> clientIP)
                     in req\<lparr>Header := Header_Set (Header req) ''X-Forwarded-For'' clientIP\<rparr>)
                | Inl err \<Rightarrow> req)
             else req)
      in case RoundTrip e req of
           Inl err \<Rightarrow>
             \<lparr>writer = http_Error w err StatusServiceUnavailable, trace = t @ [Forward req]\<rparr>
         | Inr resp \<Rightarrow>
             (let w = w\<lparr>handlerHeader := copyHeader (handlerHeader w) (respHeader resp)\<rparr>;
                  w = WriteHeader w (StatusCode resp);
                  w = io_Copy w (Body resp)
              in \<lparr>writer = w, trace = t @ [Forward req, Body_Close]\<rparr>))"

definition checkAuth :: "config \<Rightarrow> string \<Rightarrow> bool" where
  "checkAuth Cfg auth =
     (let c = strings_SplitN auth '' '' 2
      in if length c \<noteq> 2 \<or> c ! 0 \<noteq> ''Basic'' then False
         else (case DecodeString (c ! 1) of
                 None \<Rightarrow> False
               | Some payload \<Rightarrow> payload = Auth Cfg))"

text \<open>The handler function of the server that \<^verbatim>\<open>main\<close> builds.\<close>

definition Handler :: "config \<Rightarrow> env \<Rightarrow> ResponseWriter \<Rightarrow> Request \<Rightarrow> outcome" where
  \<open>Handler Cfg e w r =
     (let dispatch =
            (if Method r = ''CONNECT'' then handleTunneling Cfg e w r else handleHTTP Cfg e w r)
      in if Auth Cfg \<noteq> [] then
           (let auth = Header_Get (Header r) ''Proxy-Authorization''
            in if auth = [] \<or> \<not> checkAuth Cfg auth then
                 (let w = w\<lparr>handlerHeader :=
                              Header_Set (handlerHeader w) ''Proxy-Authenticate''
                                ''Basic realm="WProxy Basic Authentication"''\<rparr>
                  in \<lparr>writer = http_Error w ''Authorization required'' StatusProxyAuthRequired,
                      trace = []\<rparr>)
               else dispatch)
         else dispatch)\<close>

subsection \<open>transfer and the goroutines of a tunnel\<close>

text \<open>
  A connection is open or closed. \<^verbatim>\<open>Close\<close> on an open connection closes it; on a closed
  one it returns an error and changes nothing. \<open>closings\<close> counts how often the connection
  went from open to closed, \<open>Close_calls\<close> every call, and \<open>sent\<close> holds the bytes written
  to the connection.
\<close>

record conn_state =
  closed :: bool
  closings :: nat
  Close_calls :: nat
  sent :: string

definition open_conn :: conn_state where
  "open_conn = \<lparr>closed = False, closings = 0, Close_calls = 0, sent = []\<rparr>"

definition conn_Close :: "Conn \<Rightarrow> (Conn \<Rightarrow> conn_state) \<Rightarrow> (Conn \<Rightarrow> conn_state)" where
  "conn_Close c cs =
     (let st = cs c
      in if closed st then cs(c := st\<lparr>Close_calls := Close_calls st + 1\<rparr>)
         else cs(c := st\<lparr>closed := True, closings := closings st + 1,
                          Close_calls := Close_calls st + 1\<rparr>))"

text \<open>
  \<^verbatim>\<open>transfer\<close> registers \<^verbatim>\<open>destination.Close()\<close> and then \<^verbatim>\<open>source.Close()\<close> as
  deferred calls and runs \<^verbatim>\<open>io.Copy(destination, source)\<close>. When the copy returns, for
  whatever reason, the deferred calls run, the last one first. A goroutine running it is at
  one of four places.
\<close>

datatype pc = Copying | Closing_source | Closing_destination | Returned

record goroutine =
  destination :: Conn
  source :: Conn
  pc :: pc

definition go_transfer :: "Conn \<Rightarrow> Conn \<Rightarrow> goroutine" where
  "go_transfer dst src = \<lparr>destination = dst, source = src, pc = Copying\<rparr>"

text \<open>
  What the next round of \<^verbatim>\<open>io.Copy\<close> meets: bytes that are read and then written, the
  end of the stream, a failing read, or bytes that are read and whose write fails.
\<close>

datatype io_event = Copied string | Read_EOF | Read_error | Write_error string

text \<open>
  One step of a goroutine. A read from a closed connection fails, and so does a write of
  at least one byte to a closed connection; both end the copy, as do the end of the stream
  and every error.
\<close>

definition transfer ::
  "io_event \<Rightarrow> goroutine \<Rightarrow> (Conn \<Rightarrow> conn_state) \<Rightarrow> goroutine \<times> (Conn \<Rightarrow> conn_state)" where
  "transfer ev g cs =
     (case pc g of
        Copying \<Rightarrow>
          (if closed (cs (source g)) then (g\<lparr>pc := Closing_source\<rparr>, cs)
           else
             (case ev of
                Copied data \<Rightarrow>
                  if data = [] then (g, cs)
                  else if closed (cs (destination g)) then (g\<lparr>pc := Closing_source\<rparr>, cs)
                  else (g, cs(destination g :=
                              (cs (destination g))\<lparr>sent := sent (cs (destination g)) @ data\<rparr>))
              | Read_EOF \<Rightarrow> (g\<lparr>pc := Closing_source\<rparr>, cs)
              | Read_error \<Rightarrow> (g\<lparr>pc := Closing_source\<rparr>, cs)
              | Write_error data \<Rightarrow> (g\<lparr>pc := Closing_source\<rparr>, cs)))
      | Closing_source \<Rightarrow> (g\<lparr>pc := Closing_destination\<rparr>, conn_Close (source g) cs)
      | Closing_destination \<Rightarrow> (g\<lparr>pc := Returned\<rparr>, conn_Close (destination g) cs)
      | Returned \<Rightarrow> (g, cs))"

text \<open>
  The relay of a tunnel: the connections and the goroutines. A schedule says which goroutine
  takes the next step and what its copy meets there; every interleaving of the goroutines and
  every way a copy can end is some schedule.
\<close>

record relay =
  conns :: "Conn \<Rightarrow> conn_state"
  goroutines :: "goroutine list"

definition step :: "nat \<times> io_event \<Rightarrow> relay \<Rightarrow> relay" where
  "step = (\<lambda>(i, ev) s.
     if i < length (goroutines s) then
       (let (g, cs) = transfer ev (goroutines s ! i) (conns s)
        in \<lparr>conns = cs, goroutines = (goroutines s)[i := g]\<rparr>)
     else s)"

definition run :: "(nat \<times> io_event) list \<Rightarrow> relay \<Rightarrow> relay" where
  "run sched s = fold step sched s"

definition all_returned :: "relay \<Rightarrow> bool" where
  "all_returned s = list_all (\<lambda>g. pc g = Returned) (goroutines s)"

text \<open>
  The goroutines that a handler started on two connections, in the order of their
  \<^verbatim>\<open>go\<close> statements, all connections being open. (A \<^verbatim>\<open>transfer\<close> that is given a nil
  connection panics in its \<^verbatim>\<open>defer\<close> statements and never copies; it is no part of a
  relay.)
\<close>

fun spawned :: "effect list \<Rightarrow> goroutine list" where
  "spawned [] = []"
| "spawned (Go_transfer (Some dst) (Some src) # es) = go_transfer dst src # spawned es"
| "spawned (x # es) = spawned es"

definition tunnel :: "outcome \<Rightarrow> relay" where
  "tunnel out = \<lparr>conns = (\<lambda>c. open_conn), goroutines = spawned (trace out)\<rparr>"

text \<open>
  What holds of a relay at every moment: a connection was closed once if it is closed and
  never if it is open; a goroutine that is past \<^verbatim>\<open>source.Close()\<close> has a closed source,
  and one that has returned has a closed destination as well.
\<close>

definition relay_inv :: "relay \<Rightarrow> bool" where
  "relay_inv s =
     ((\<forall>c. closings (conns s c) = (if closed (conns s c) then 1 else 0))
      \<and> (\<forall>g \<in> set (goroutines s).
            (pc g = Closing_destination \<or> pc g = Returned \<longrightarrow> closed (conns s (source g)))
            \<and> (pc g = Returned \<longrightarrow> closed (conns s (destination g)))))"

text \<open>
  The \<^verbatim>\<open>Close\<close> calls that a goroutine has made on a connection so far: one on its
  source when it is past \<^verbatim>\<open>source.Close()\<close>, one on its destination when it has returned.
\<close>

definition Close_calls_by :: "goroutine \<Rightarrow> Conn \<Rightarrow> nat" where
  "Close_calls_by g c =
     (if source g = c \<and> (pc g = Closing_destination \<or> pc g = Returned) then 1 else 0)
     + (if destination g = c \<and> pc g = Returned then 1 else 0)"

text \<open>The \<^verbatim>\<open>go\<close> statements of a trace, whatever their connections.\<close>

fun go_statements :: "effect list \<Rightarrow> (Conn option \<times> Conn option) list" where
  "go_statements [] = []"
| "go_statements (Go_transfer dst src # es) = (dst, src) # go_statements es"
| "go_statements (x # es) = go_statements es"

subsection \<open>Observing a request\<close>

text \<open>
  The writer that the server hands to the handler with each request: nothing set, nothing
  written. Its argument says whether and how it can be hijacked.
\<close>

definition NewWriter :: "(string + Conn) option \<Rightarrow> ResponseWriter" where
  "NewWriter hij =
     \<lparr>handlerHeader = [], wroteHeader = False, status = 0, sentHeader = [], written = [],
      hijacker = hij, hijacked = False, informational = [], panicked = None\<rparr>"

text \<open>The requests of a trace that were given to \<^verbatim>\<open>RoundTrip\<close>.\<close>

fun forwards :: "effect list \<Rightarrow> Request list" where
  "forwards [] = []"
| "forwards (Forward q # es) = q # forwards es"
| "forwards (x # es) = forwards es"

text \<open>
  The request that \<^verbatim>\<open>handleHTTP\<close> passes on: the request it was given, after the lines
  that set the client-IP header (lemma \<open>handleHTTP_outbound\<close> shows that it is this one).
\<close>

definition outbound :: "config \<Rightarrow> Request \<Rightarrow> Request" where
  "outbound Cfg req =
     (if TProxy Cfg then
        (case net_SplitHostPort (RemoteAddr req) of
           Inr (clientIP, port) \<Rightarrow>
             (let clientIP =
                    (case map_of (Header req) ''X-Forwarded-For'' of
                       Some v \<Rightarrow> strings_Join v '', '' @ '', '' @ clientIP
                     | None \<Rightarrow> clientIP)
              in req\<lparr>Header := Header_Set (Header req) ''X-Forwarded-For'' clientIP\<rparr>)
         | Inl err \<Rightarrow> req)
      else req)"

subsection \<open>Example values\<close>

definition cfg0 :: config where
  "cfg0 = \<lparr>Addr = ''0.0.0.0'', Port = ''8888'', Auth = ''tt:123'', TProxy = True, Debug = True\<rparr>"

definition dial_refused :: env where
  "dial_refused =
     \<lparr>net_DialTimeout = (\<lambda>address. Inl ''connection refused''),
      RoundTrip = (\<lambda>req. Inl ''connection refused'')\<rparr>"

definition origin_201 :: env where
  "origin_201 =
     \<lparr>net_DialTimeout = (\<lambda>address. Inr (Conn 2)),
      RoundTrip = (\<lambda>req. Inr \<lparr>StatusCode = 201, respHeader = [(''X-A'', [''1'', ''2''])],
                                Body = ''ok''\<rparr>)\<rparr>"



definition get_request :: Request where
  "get_request =
     \<lparr>Method = ''GET'', URL = ''http://example.org/'', Host = ''example.org'',
      RemoteAddr = ''B:4711'',
      Header = [(''Proxy-Authorization'', [''Basic dHQ6MTIz'']), (''X-Forwarded-For'', [''A''])],
      reqBody = []\<rparr>"

definition connect_request :: Request where
  "connect_request =
     \<lparr>Method = ''CONNECT'', URL = [], Host = ''example.org:443'',
      RemoteAddr = ''B:4711'',
      Header = [(''Proxy-Authorization'', [''Basic dHQ6MTIz''])],
      reqBody = []\<rparr>"

text \<open>
  The start of a run of a tunnel: the client sends three bytes, then the destination ends
  its stream, so that the goroutine that reads from the destination (the second one) leaves
  its copy while the first one is still copying.
\<close>

definition destination_ends_first :: "(nat \<times> io_event) list" where
  "destination_ends_first = [(0, Copied ''GET''), (1, Read_EOF)]"

section \<open>Properties\<close>

subsection \<open>Header keys, traces and error replies\<close>

lemma canonical_keys:
  "CanonicalMIMEHeaderKey ''Content-Length'' = ''Content-Length''"
  "CanonicalMIMEHeaderKey ''Content-Type'' = ''Content-Type''"
  "CanonicalMIMEHeaderKey ''X-Content-Type-Options'' = ''X-Content-Type-Options''"
  "CanonicalMIMEHeaderKey ''Proxy-Authorization'' = ''Proxy-Authorization''"
  "CanonicalMIMEHeaderKey ''Proxy-Authenticate'' = ''Proxy-Authenticate''"
  "CanonicalMIMEHeaderKey ''X-Forwarded-For'' = ''X-Forwarded-For''"
  by code_simp+

lemma go_statements_append:
  "go_statements (xs @ ys) = go_statements xs @ go_statements ys"
  by (induction xs rule: go_statements.induct) simp_all

lemma forwards_append: "forwards (xs @ ys) = forwards xs @ forwards ys"
  by (induction xs rule: forwards.induct) simp_all

lemma bodyAllowed_constants:
  "bodyAllowedForStatus StatusOK" "bodyAllowedForStatus StatusProxyAuthRequired"
  "bodyAllowedForStatus StatusInternalServerError" "bodyAllowedForStatus StatusServiceUnavailable"
  by (simp_all add: bodyAllowedForStatus_def)

text \<open>On a new writer \<^verbatim>\<open>http.Error\<close> decides the whole reply.\<close>

lemma http_Error_NewWriter:
  "http_Error (NewWriter hij) msg code =
     \<lparr>handlerHeader = [(''Content-Type'', [''text/plain; charset=utf-8'']),
                       (''X-Content-Type-Options'', [''nosniff''])],
      wroteHeader = True, status = code,
      sentHeader = [(''Content-Type'', [''text/plain; charset=utf-8'']),
                    (''X-Content-Type-Options'', [''nosniff''])],
      written = msg @ [CHR 0x0A], hijacker = hij, hijacked = False,
      informational = [], panicked = None\<rparr>"
  if "200 \<le> code" and "code \<le> 999" and "bodyAllowedForStatus code"
  using that
  by (simp add: http_Error_def NewWriter_def Header_Del_def Header_Set_def canonical_keys
      WriteHeader_def Write_def Let_def checkWriteHeaderCode_def)

text \<open>
  Once a header is written, \<^verbatim>\<open>http.Error\<close> can only append its message to the body:
  its status code is dropped.
\<close>

lemma http_Error_wroteHeader:
  "wroteHeader w \<Longrightarrow> \<not> hijacked w \<Longrightarrow> panicked w = None \<Longrightarrow>
   bodyAllowedForStatus (status w) \<Longrightarrow>
   status (http_Error w msg code) = status w
   \<and> sentHeader (http_Error w msg code) = sentHeader w
   \<and> written (http_Error w msg code) = written w @ msg @ [CHR 0x0A]"
  by (simp add: http_Error_def WriteHeader_def Write_def Let_def)

subsection \<open>The tunnel: failures before the relay\<close>

text \<open>
  Claim C4. A CONNECT request whose dial fails is answered with status 503 and the text of
  the error as body (\<^verbatim>\<open>http.Error\<close> ends the text with a line feed), and the handler
  reaches no \<^verbatim>\<open>go\<close> statement: no relay task is started.
\<close>

theorem dial_failure_503:
  assumes "net_DialTimeout e (Host r) = Inl err"
  shows "status (writer (handleTunneling Cfg e (NewWriter hij) r)) = StatusServiceUnavailable
       \<and> written (writer (handleTunneling Cfg e (NewWriter hij) r)) = err @ [CHR 0x0A]
       \<and> go_statements (trace (handleTunneling Cfg e (NewWriter hij) r)) = []"
  using assms
  by (simp add: handleTunneling_def http_Error_NewWriter bodyAllowed_constants received_def
      Let_def go_statements_append)

theorem dial_failure_503_witness:
  "net_DialTimeout dial_refused (Host connect_request) = Inl ''connection refused''
   \<and> status (writer (handleTunneling cfg0 dial_refused (NewWriter None) connect_request)) = 503
   \<and> written (writer (handleTunneling cfg0 dial_refused (NewWriter None) connect_request))
       = ''connection refused'' @ [CHR 0x0A]
   \<and> go_statements (trace (handleTunneling cfg0 dial_refused (NewWriter None) connect_request)) = []"
  using dial_failure_503 [of dial_refused connect_request "''connection refused''" cfg0 None]
  by (simp add: dial_refused_def)

text \<open>
  Claim C6. When the dial succeeds and the writer is no \<^verbatim>\<open>http.Hijacker\<close>, the handler
  starts no relay task and calls \<^verbatim>\<open>http.Error\<close> with status 500. But it has called
  \<^verbatim>\<open>WriteHeader(200)\<close> before it asks for the hijacker, so the status of the reply is 200
  and not 500; the message \<^verbatim>\<open>Hijacking not supported\<close> becomes the body of that reply.
  (The connection that was dialed is not closed on this path.)
\<close>

theorem hijack_unsupported_status_200:
  assumes "net_DialTimeout e (Host r) = Inr destConn"
  shows "status (writer (handleTunneling Cfg e (NewWriter None) r)) = StatusOK
       \<and> status (writer (handleTunneling Cfg e (NewWriter None) r)) \<noteq> StatusInternalServerError
       \<and> written (writer (handleTunneling Cfg e (NewWriter None) r))
           = ''Hijacking not supported'' @ [CHR 0x0A]
       \<and> go_statements (trace (handleTunneling Cfg e (NewWriter None) r)) = []"
  using assms
  by (simp add: handleTunneling_def http_Error_wroteHeader bodyAllowed_constants received_def
      Let_def go_statements_append NewWriter_def WriteHeader_def checkWriteHeaderCode_def)

theorem hijack_unsupported_status_200_witness:
  "net_DialTimeout origin_201 (Host connect_request) = Inr (Conn 2)
   \<and> status (writer (handleTunneling cfg0 origin_201 (NewWriter None) connect_request)) = 200"
  using hijack_unsupported_status_200 [of origin_201 connect_request "Conn 2" cfg0]
  by (simp add: origin_201_def)

text \<open>
  Claim C10. When the dial succeeds and \<^verbatim>\<open>Hijack()\<close> returns an error, the handler calls
  \<^verbatim>\<open>http.Error\<close> with status 503 and does not return: it goes on to both \<^verbatim>\<open>go\<close>
  statements, with a nil client connection. The status of the reply is the 200 written
  before the hijack, not 503; the error text becomes the body.
\<close>

theorem hijack_error_status_200:
  assumes "net_DialTimeout e (Host r) = Inr destConn"
  shows "status (writer (handleTunneling Cfg e (NewWriter (Some (Inl err))) r)) = StatusOK
       \<and> written (writer (handleTunneling Cfg e (NewWriter (Some (Inl err))) r)) = err @ [CHR 0x0A]
       \<and> go_statements (trace (handleTunneling Cfg e (NewWriter (Some (Inl err))) r))
           = [(Some destConn, None), (None, Some destConn)]"
  using assms
  by (simp add: handleTunneling_def http_Error_wroteHeader bodyAllowed_constants received_def
      Let_def go_statements_append NewWriter_def WriteHeader_def checkWriteHeaderCode_def
      Hijack_def)

theorem hijack_error_status_200_witness:
  "net_DialTimeout origin_201 (Host connect_request) = Inr (Conn 2)
   \<and> status (writer (handleTunneling cfg0 origin_201 (NewWriter (Some (Inl ''broken''))) connect_request))
       = 200
   \<and> go_statements (trace (handleTunneling cfg0 origin_201 (NewWriter (Some (Inl ''broken''))) connect_request))
       = [(Some (Conn 2), None), (None, Some (Conn 2))]"
  using hijack_error_status_200 [of origin_201 connect_request "Conn 2" cfg0 "''broken''"]
  by (simp add: origin_201_def)

subsection \<open>Forwarding: the request that goes out\<close>

lemma handleHTTP_outbound:
  "handleHTTP Cfg e w req =
     (let t = (if Debug Cfg then [received req] else [])
      in case RoundTrip e (outbound Cfg req) of
           Inl err \<Rightarrow>
             \<lparr>writer = http_Error w err StatusServiceUnavailable,
              trace = t @ [Forward (outbound Cfg req)]\<rparr>
         | Inr resp \<Rightarrow>
             \<lparr>writer = io_Copy (WriteHeader
                         (w\<lparr>handlerHeader := copyHeader (handlerHeader w) (respHeader resp)\<rparr>)
                         (StatusCode resp)) (Body resp),
              trace = t @ [Forward (outbound Cfg req), Body_Close]\<rparr>)"
  unfolding handleHTTP_def outbound_def Let_def by (rule refl)

lemma handleHTTP_forwards: "forwards (trace (handleHTTP Cfg e w req)) = [outbound Cfg req]"
  by (simp add: handleHTTP_outbound forwards_append received_def split: sum.splits)

text \<open>
  Claim C8. When the round trip of the request that was passed on fails, the reply is built
  by \<^verbatim>\<open>http.Error\<close> alone: status 503, the error text (ended by a line feed) as body, the
  two headers of a plain-text reply and none of an origin. \<^verbatim>\<open>RoundTrip\<close> was called once,
  so nothing was retried, and no response body was there to close.
\<close>

theorem round_trip_failure_503:
  assumes "q \<in> set (forwards (trace (handleHTTP Cfg e (NewWriter hij) req)))"
    and "RoundTrip e q = Inl err"
  shows "status (writer (handleHTTP Cfg e (NewWriter hij) req)) = StatusServiceUnavailable
       \<and> written (writer (handleHTTP Cfg e (NewWriter hij) req)) = err @ [CHR 0x0A]
       \<and> sentHeader (writer (handleHTTP Cfg e (NewWriter hij) req))
           = [(''Content-Type'', [''text/plain; charset=utf-8'']),
              (''X-Content-Type-Options'', [''nosniff''])]
       \<and> forwards (trace (handleHTTP Cfg e (NewWriter hij) req)) = [q]
       \<and> Body_Close \<notin> set (trace (handleHTTP Cfg e (NewWriter hij) req))"
proof -
  from assms(1) have q: "q = outbound Cfg req"
    by (simp add: handleHTTP_forwards)
  with assms(2) have "handleHTTP Cfg e (NewWriter hij) req =
      \<lparr>writer = http_Error (NewWriter hij) err StatusServiceUnavailable,
       trace = (if Debug Cfg then [received req] else []) @ [Forward q]\<rparr>"
    by (simp add: handleHTTP_outbound)
  then show ?thesis
    by (simp add: http_Error_NewWriter bodyAllowed_constants received_def forwards_append)
qed

theorem round_trip_failure_503_witness:
  "get_request \<in> set (forwards (trace
      (handleHTTP (cfg0\<lparr>TProxy := False\<rparr>) dial_refused (NewWriter None) get_request)))
   \<and> RoundTrip dial_refused get_request = Inl ''connection refused''
   \<and> status (writer (handleHTTP (cfg0\<lparr>TProxy := False\<rparr>) dial_refused (NewWriter None) get_request))
       = 503
   \<and> written (writer (handleHTTP (cfg0\<lparr>TProxy := False\<rparr>) dial_refused (NewWriter None) get_request))
       = ''connection refused'' @ [CHR 0x0A]
   \<and> forwards (trace (handleHTTP (cfg0\<lparr>TProxy := False\<rparr>) dial_refused (NewWriter None) get_request))
       = [get_request]"
proof -
  have 1: "get_request \<in> set (forwards (trace
      (handleHTTP (cfg0\<lparr>TProxy := False\<rparr>) dial_refused (NewWriter None) get_request)))"
    by (simp add: handleHTTP_forwards outbound_def)
  have 2: "RoundTrip dial_refused get_request = Inl ''connection refused''"
    by (simp add: dial_refused_def)
  from round_trip_failure_503 [OF 1 2] 1 2 show ?thesis by simp
qed

text \<open>
  Claim C9. In transparent-proxy mode, when the remote address does not split into host and
  port, the request goes out exactly as it came in: no header is set or changed.
\<close>

theorem unsplit_remote_address_unchanged:
  assumes "TProxy Cfg" and "net_SplitHostPort (RemoteAddr req) = Inl err"
  shows "forwards (trace (handleHTTP Cfg e w req)) = [req]"
  using assms by (simp add: handleHTTP_forwards outbound_def)

theorem unsplit_remote_address_unchanged_witness:
  "TProxy cfg0
   \<and> net_SplitHostPort (RemoteAddr (get_request\<lparr>RemoteAddr := ''@''\<rparr>)) = Inl missingPort
   \<and> forwards (trace (handleHTTP cfg0 origin_201 (NewWriter None) (get_request\<lparr>RemoteAddr := ''@''\<rparr>)))
       = [get_request\<lparr>RemoteAddr := ''@''\<rparr>]"
proof -
  have 1: "TProxy cfg0" by (simp add: cfg0_def)
  have 2: "net_SplitHostPort (RemoteAddr (get_request\<lparr>RemoteAddr := ''@''\<rparr>)) = Inl missingPort"
    by (simp add: net_SplitHostPort_def LastIndexByte_def)
  from unsplit_remote_address_unchanged [OF 1 2] 1 2 show ?thesis by simp
qed

text \<open>
  Claim C2. In transparent-proxy mode, when the remote address splits into the host \<open>B\<close> and
  a port, the request that goes out has one value under \<^verbatim>\<open>X-Forwarded-For\<close>: the values
  that the request came in with under that key, joined by comma and space, then comma, space
  and \<open>B\<close>; and just \<open>B\<close> when it came in without the key. A request that came in with the
  one value \<open>A\<close> goes out with \<open>A, B\<close>.
\<close>

theorem forwarded_for_chain:
  assumes "TProxy Cfg" and "net_SplitHostPort (RemoteAddr req) = Inr (B, port)"
  shows "\<exists>q. forwards (trace (handleHTTP Cfg e w req)) = [q]
       \<and> (case map_of (Header req) ''X-Forwarded-For'' of
             Some v \<Rightarrow> map_of (Header q) ''X-Forwarded-For''
                        = Some [strings_Join v '', '' @ '', '' @ B]
           | None \<Rightarrow> map_of (Header q) ''X-Forwarded-For'' = Some [B])
       \<and> (map_of (Header req) ''X-Forwarded-For'' = Some [A]
            \<longrightarrow> map_of (Header q) ''X-Forwarded-For'' = Some [A @ '', '' @ B])"
  using assms
  by (simp add: handleHTTP_forwards outbound_def Let_def Header_Set_def
      canonical_keys update_conv' split: option.splits)

theorem forwarded_for_chain_witness:
  "TProxy cfg0
   \<and> net_SplitHostPort (RemoteAddr get_request) = Inr (''B'', ''4711'')
   \<and> map_of (Header get_request) ''X-Forwarded-For'' = Some [''A'']
   \<and> (\<exists>q. forwards (trace (handleHTTP cfg0 origin_201 (NewWriter None) get_request)) = [q]
          \<and> map_of (Header q) ''X-Forwarded-For'' = Some [''A, B''])"
proof -
  have 1: "TProxy cfg0" by (simp add: cfg0_def)
  have 2: "net_SplitHostPort (RemoteAddr get_request) = Inr (''B'', ''4711'')"
    by (simp add: get_request_def net_SplitHostPort_def LastIndexByte_def)
  have 3: "map_of (Header get_request) ''X-Forwarded-For'' = Some [''A'']"
    by (simp add: get_request_def)
  from forwarded_for_chain [OF 1 2, of origin_201 "NewWriter None" "''A''"] 1 2 3
  show ?thesis by auto
qed

subsection \<open>Forwarding: the response that comes back\<close>








text \<open>
  The status code of a response is the only code in the program that \<^verbatim>\<open>WriteHeader\<close>
  can refuse: \<^verbatim>\<open>http.Error\<close> with a three-digit code and \<^verbatim>\<open>handleTunneling\<close> never panic.
\<close>

lemma WriteHeader_no_panic:
  "panicked w = None \<Longrightarrow> 100 \<le> code \<Longrightarrow> code \<le> 999 \<Longrightarrow> panicked (WriteHeader w code) = None"
  by (simp add: WriteHeader_def checkWriteHeaderCode_def)

lemma Write_no_panic: "panicked w = None \<Longrightarrow> panicked (Write w data) = None"
proof -
  assume w: "panicked w = None"
  then have "panicked (WriteHeader w StatusOK) = None"
    by (rule WriteHeader_no_panic) simp_all
  with w show ?thesis
    unfolding Write_def Let_def by (simp split del: if_split) (simp split: if_splits)
qed

lemma http_Error_no_panic:
  assumes "panicked w = None" and "100 \<le> code" and "code \<le> 999"
  shows "panicked (http_Error w msg code) = None"
proof -
  have "panicked (WriteHeader (w\<lparr>handlerHeader := h\<rparr>) code) = None" for h
    using assms by (intro WriteHeader_no_panic) simp_all
  then show ?thesis
    unfolding http_Error_def Let_def by (rule Write_no_panic)
qed

lemma Hijack_no_panic: "panicked (fst (Hijack w)) = panicked w"
  by (simp add: Hijack_def split: option.splits sum.splits)

lemma handleTunneling_no_panic:
  assumes "panicked w = None"
  shows "panicked (writer (handleTunneling Cfg e w r)) = None"
proof (cases "net_DialTimeout e (Host r)")
  case (Inl err)
  with assms show ?thesis
    by (simp add: handleTunneling_def Let_def http_Error_no_panic)
next
  case dial: (Inr destConn)
  let ?w = "WriteHeader w StatusOK"
  have w: "panicked ?w = None"
    using assms by (intro WriteHeader_no_panic) simp_all
  show ?thesis
  proof (cases "hijacker ?w = None")
    case True
    with dial w show ?thesis
      by (simp add: handleTunneling_def Let_def http_Error_no_panic)
  next
    case False
    then have nh: "(hijacker ?w = None) = False" by simp
    obtain w' res where h: "Hijack ?w = (w', res)" by (cases "Hijack ?w")
    then have w': "panicked w' = None"
      using Hijack_no_panic [of ?w] w by simp
    show ?thesis
    proof (cases res)
      case (Inl err)
      from w' have "panicked (http_Error w' err StatusServiceUnavailable) = None"
        by (intro http_Error_no_panic) simp_all
      with dial h Inl show ?thesis
        by (simp add: handleTunneling_def Let_def nh)
    next
      case (Inr conn)
      with dial h w' show ?thesis
        by (simp add: handleTunneling_def Let_def nh)
    qed
  qed
qed

subsection \<open>Base64: decoding reverses encoding\<close>

lemma and_3F: "(n::nat) AND 0x3F = take_bit 6 n"
proof -
  have "(0x3F::nat) = mask 6" by (simp add: mask_eq_exp_minus_1)
  then show ?thesis by (simp add: take_bit_eq_mask)
qed

lemma take_bit_6_less: "take_bit 6 (n::nat) < 64"
  using take_bit_nat_less_exp [of 6 n] by simp

lemma bit_of_char_less: "bit (of_char c :: nat) n \<Longrightarrow> n < 8"
proof -
  assume b: "bit (of_char c :: nat) n"
  have "(of_char c :: nat) < 2 ^ 8" by simp
  then have "take_bit 8 (of_char c :: nat) = of_char c" by (simp only: take_bit_nat_eq_self)
  then have "bit (take_bit 8 (of_char c :: nat)) n" using b by simp
  then show "n < 8" by (simp add: bit_simps)
qed

text \<open>Four groups of six bits, put together again, are the low 24 bits.\<close>

lemma regroup:
  fixes v :: nat
  shows "push_bit 18 (take_bit 6 (drop_bit 18 v)) OR push_bit 12 (take_bit 6 (drop_bit 12 v))
         OR push_bit 6 (take_bit 6 (drop_bit 6 v)) OR take_bit 6 v = take_bit 24 v"
proof (rule bit_eqI)
  fix n :: nat
  consider "n < 6" | "6 \<le> n" "n < 12" | "12 \<le> n" "n < 18" | "18 \<le> n" "n < 24" | "24 \<le> n"
    by linarith
  then show "bit (push_bit 18 (take_bit 6 (drop_bit 18 v)) OR push_bit 12 (take_bit 6 (drop_bit 12 v))
         OR push_bit 6 (take_bit 6 (drop_bit 6 v)) OR take_bit 6 v) n = bit (take_bit 24 v) n"
    by cases (auto simp: bit_simps)
qed

lemma three_bytes:
  fixes a b c :: char
  defines "v \<equiv> push_bit 16 (of_char a :: nat) OR push_bit 8 (of_char b) OR of_char c"
  shows "take_bit 24 v = v"
    and "char_of (drop_bit 16 v) = a"
    and "char_of (drop_bit 8 v) = b"
    and "char_of v = c"
proof -
  show "take_bit 24 v = v"
    unfolding v_def by (rule bit_eqI) (auto simp: bit_simps dest: bit_of_char_less)
  have "take_bit 8 (drop_bit 16 v) = (of_char a :: nat)"
    unfolding v_def by (rule bit_eqI) (auto simp: bit_simps dest: bit_of_char_less)
  then show "char_of (drop_bit 16 v) = a"
    by (metis char_of_take_bit_eq char_of_char order_refl)
  have "take_bit 8 (drop_bit 8 v) = (of_char b :: nat)"
    unfolding v_def by (rule bit_eqI) (auto simp: bit_simps dest: bit_of_char_less)
  then show "char_of (drop_bit 8 v) = b"
    by (metis char_of_take_bit_eq char_of_char order_refl)
  have "take_bit 8 v = (of_char c :: nat)"
    unfolding v_def by (rule bit_eqI) (auto simp: bit_simps dest: bit_of_char_less)
  then show "char_of v = c"
    by (metis char_of_take_bit_eq char_of_char order_refl)
qed

text \<open>Decoding the four 6-bit groups of three bytes gives the three bytes back.\<close>

lemma quantum_groups:
  fixes a b c :: char
  defines "v \<equiv> push_bit 16 (uint a) OR push_bit 8 (uint b) OR uint c"
  shows "quantum (drop_bit 18 v AND 0x3F) (drop_bit 12 v AND 0x3F) (drop_bit 6 v AND 0x3F)
           (v AND 0x3F) = [a, b, c]"
proof -
  have "push_bit 18 (take_bit 6 (drop_bit 18 v)) OR push_bit 12 (take_bit 6 (drop_bit 12 v))
         OR push_bit 6 (take_bit 6 (drop_bit 6 v)) OR take_bit 6 v = v"
    unfolding regroup unfolding v_def uint_def by (rule three_bytes(1))
  then show ?thesis
    unfolding quantum_def and_3F Let_def byte_def
    by (simp only: three_bytes(2,3,4) v_def uint_def)
qed

lemma quantum_groups_2:
  fixes a b :: char
  defines "v \<equiv> push_bit 16 (uint a) OR push_bit 8 (uint b)"
  shows "take 2 (quantum (drop_bit 18 v AND 0x3F) (drop_bit 12 v AND 0x3F)
           (drop_bit 6 v AND 0x3F) 0) = [a, b]"
proof -
  let ?w = "push_bit 16 (of_char a :: nat) OR push_bit 8 (of_char b) OR of_char (CHR 0x00)"
  have v: "v = ?w" by (simp add: v_def uint_def)
  have "take_bit 6 ?w = 0"
    by (rule bit_eqI) (auto simp: bit_simps)
  then have "push_bit 18 (take_bit 6 (drop_bit 18 ?w)) OR push_bit 12 (take_bit 6 (drop_bit 12 ?w))
         OR push_bit 6 (take_bit 6 (drop_bit 6 ?w)) OR 0 = ?w"
    using regroup [of ?w] by (simp only: three_bytes(1))
  then show ?thesis
    unfolding quantum_def and_3F Let_def byte_def v
    by (simp only: three_bytes(2,3)) simp
qed

lemma quantum_groups_1:
  fixes a :: char
  defines "v \<equiv> push_bit 16 (uint a)"
  shows "take 1 (quantum (drop_bit 18 v AND 0x3F) (drop_bit 12 v AND 0x3F) 0 0) = [a]"
proof -
  let ?w = "push_bit 16 (of_char a :: nat) OR push_bit 8 (of_char (CHR 0x00)) OR of_char (CHR 0x00)"
  have v: "v = ?w" by (simp add: v_def uint_def)
  have "take_bit 6 ?w = 0"
    by (rule bit_eqI) (auto simp: bit_simps)
  moreover have "take_bit 6 (drop_bit 6 ?w) = 0"
    by (rule bit_eqI) (auto simp: bit_simps dest: bit_of_char_less)
  ultimately have "push_bit 18 (take_bit 6 (drop_bit 18 ?w)) OR push_bit 12 (take_bit 6 (drop_bit 12 ?w))
         OR push_bit 6 0 OR 0 = ?w"
    using regroup [of ?w] by (simp only: three_bytes(1))
  then show ?thesis
    unfolding quantum_def and_3F Let_def byte_def v
    by (simp only: three_bytes(2)) simp
qed

lemma distinct_encodeStd: "distinct encodeStd"
  unfolding encodeStd_def by simp

lemma length_encodeStd: "length encodeStd = 64"
  unfolding encodeStd_def by simp

lemma IndexByte_nth: "distinct xs \<Longrightarrow> i < length xs \<Longrightarrow> IndexByte xs (xs ! i) = Some i"
proof (induction xs arbitrary: i)
  case Nil
  then show ?case by simp
next
  case (Cons x xs)
  then show ?case by (cases i) auto
qed

lemma decodeMap_encode: "decodeMap (encode (n AND 0x3F)) = Some (n AND 0x3F)"
  by (simp add: decodeMap_def encode_def IndexByte_nth distinct_encodeStd length_encodeStd
      and_3F take_bit_6_less)

lemma encode_in_alphabet: "encode (n AND 0x3F) \<in> set encodeStd"
  by (simp add: encode_def length_encodeStd and_3F take_bit_6_less)

lemma alphabet_plain:
  "c \<in> set encodeStd \<Longrightarrow> c \<noteq> padChar \<and> c \<noteq> CHR 0x0A \<and> c \<noteq> CHR 0x0D"
  unfolding encodeStd_def padChar_def by auto

lemma encode_plain:
  "encode (n AND 0x3F) \<noteq> padChar" "encode (n AND 0x3F) \<noteq> CHR 0x0A" "encode (n AND 0x3F) \<noteq> CHR 0x0D"
  using alphabet_plain [OF encode_in_alphabet] by simp_all

lemma encode_not_pad: "(encode (n AND 0x3F) = padChar) = False"
  using encode_plain(1) by simp

lemma decode_EncodeToString: "decode (EncodeToString s) = Some s"
proof (induction s rule: EncodeToString.induct)
  case (1 a b c rest)
  have "decode (EncodeToString (a # b # c # rest)) =
          map_option (\<lambda>r. [a, b, c] @ r) (decode (EncodeToString rest))"
    by (simp only: EncodeToString.simps Let_def decode.simps decodeMap_encode encode_not_pad
        quantum_groups prod.case option.case if_False)
  then show ?case by (simp add: "1.IH")
next
  case (2 a b)
  show ?case
    by (simp only: EncodeToString.simps Let_def decode.simps decodeMap_encode encode_not_pad
        quantum_groups_2 prod.case option.case if_False if_True simp_thms)
next
  case (3 a)
  show ?case
    by (simp only: EncodeToString.simps Let_def decode.simps decodeMap_encode encode_not_pad
        quantum_groups_1 prod.case option.case if_False if_True simp_thms)
next
  case 4
  then show ?case by simp
qed

lemma EncodeToString_no_line_breaks:
  "filter (\<lambda>c. c \<noteq> CHR 0x0A \<and> c \<noteq> CHR 0x0D) (EncodeToString s) = EncodeToString s"
proof (induction s rule: EncodeToString.induct)
  case (1 a b c rest)
  then show ?case by (simp add: Let_def encode_plain)
next
  case (2 a b)
  then show ?case by (simp add: Let_def encode_plain padChar_def)
next
  case (3 a)
  then show ?case by (simp add: Let_def encode_plain padChar_def)
next
  case 4
  then show ?case by simp
qed

text \<open>What \<^verbatim>\<open>EncodeToString\<close> writes, \<^verbatim>\<open>DecodeString\<close> reads back.\<close>

lemma DecodeString_EncodeToString: "DecodeString (EncodeToString s) = Some s"
  by (simp add: DecodeString_def EncodeToString_no_line_breaks decode_EncodeToString)

lemma EncodeToString_example: "EncodeToString ''tt:123'' = ''dHQ6MTIz''"
  by (simp add: uint_def Let_def encode_def encodeStd_def)

subsection \<open>The authentication gate and the dispatch\<close>

lemma strings_Cut_byte_Some:
  "strings_Cut s [c] = Some (before, after) \<Longrightarrow> s = before @ c # after \<and> c \<notin> set before"
proof (induction s arbitrary: before)
  case Nil
  then show ?case by simp
next
  case (Cons x s)
  show ?case
  proof (cases "x = c")
    case True
    with Cons.prems show ?thesis by simp
  next
    case False
    with Cons.prems obtain b where "strings_Cut s [c] = Some (b, after)" "before = x # b"
      by auto
    with Cons.IH False show ?thesis by auto
  qed
qed

lemma strings_SplitN_2:
  "strings_SplitN s sep 2 =
     (case strings_Cut s sep of None \<Rightarrow> [s] | Some (before, after) \<Rightarrow> [before, after])"
  by (simp add: numeral_2_eq_2 split: option.splits)

lemma strings_Cut_Basic: "strings_Cut (''Basic '' @ p) '' '' = Some (''Basic'', p)"
  by simp

text \<open>
  \<^verbatim>\<open>checkAuth\<close> accepts exactly the values that are \<^verbatim>\<open>Basic\<close>, one space, and a text
  that decodes to the configured credential.
\<close>

lemma checkAuth_iff:
  "checkAuth Cfg auth = (\<exists>p. auth = ''Basic '' @ p \<and> DecodeString p = Some (Auth Cfg))"
proof
  assume ok: "checkAuth Cfg auth"
  show "\<exists>p. auth = ''Basic '' @ p \<and> DecodeString p = Some (Auth Cfg)"
  proof (cases "strings_Cut auth '' ''")
    case None
    with ok show ?thesis by (simp add: checkAuth_def strings_SplitN_2)
  next
    case (Some ba)
    obtain before after where ba: "ba = (before, after)" by (cases ba)
    from ok Some ba have "before = ''Basic''" "DecodeString after = Some (Auth Cfg)"
      by (auto simp: checkAuth_def strings_SplitN_2 split: option.splits if_splits)
    moreover from Some ba have "auth = before @ CHR '' '' # after"
      using strings_Cut_byte_Some by blast
    ultimately show ?thesis by simp
  qed
next
  assume "\<exists>p. auth = ''Basic '' @ p \<and> DecodeString p = Some (Auth Cfg)"
  then obtain p where p: "auth = ''Basic '' @ p" "DecodeString p = Some (Auth Cfg)" by blast
  have "strings_SplitN auth '' '' 2 = [''Basic'', p]"
    unfolding p(1) strings_SplitN_2 strings_Cut_Basic by simp
  with p(2) show "checkAuth Cfg auth"
    by (simp add: checkAuth_def)
qed

lemma Header_Get_absent: "map_of h ''Proxy-Authorization'' = None \<Longrightarrow> Header_Get h ''Proxy-Authorization'' = []"
  by (simp add: Header_Get_def canonical_keys)

lemma Handler_rejects:
  assumes "Auth Cfg \<noteq> []"
    and "Header_Get (Header r) ''Proxy-Authorization'' = [] \<or> \<not> checkAuth Cfg (Header_Get (Header r) ''Proxy-Authorization'')"
  shows \<open>Handler Cfg e w r =
     \<lparr>writer = http_Error (w\<lparr>handlerHeader := Header_Set (handlerHeader w) ''Proxy-Authenticate''
                          ''Basic realm="WProxy Basic Authentication"''\<rparr>)
                 ''Authorization required'' StatusProxyAuthRequired,
      trace = []\<rparr>\<close>
  using assms by (simp add: Handler_def Let_def)

lemma Handler_dispatches:
  assumes "Auth Cfg = [] \<or> (Header_Get (Header r) ''Proxy-Authorization'' \<noteq> [] \<and> checkAuth Cfg (Header_Get (Header r) ''Proxy-Authorization''))"
  shows "Handler Cfg e w r =
     (if Method r = ''CONNECT'' then handleTunneling Cfg e w r else handleHTTP Cfg e w r)"
  using assms by (auto simp add: Handler_def Let_def)

lemma challenge_NewWriter:
  \<open>http_Error ((NewWriter hij)\<lparr>handlerHeader := Header_Set (handlerHeader (NewWriter hij)) ''Proxy-Authenticate''
                          ''Basic realm="WProxy Basic Authentication"''\<rparr>)
                 ''Authorization required'' StatusProxyAuthRequired =
    \<lparr>handlerHeader = [(''Proxy-Authenticate'', [''Basic realm="WProxy Basic Authentication"'']),
                      (''Content-Type'', [''text/plain; charset=utf-8'']),
                      (''X-Content-Type-Options'', [''nosniff''])],
      wroteHeader = True, status = StatusProxyAuthRequired,
      sentHeader = [(''Proxy-Authenticate'', [''Basic realm="WProxy Basic Authentication"'']),
                    (''Content-Type'', [''text/plain; charset=utf-8'']),
                    (''X-Content-Type-Options'', [''nosniff''])],
      written = ''Authorization required'' @ [CHR 0x0A], hijacker = hij, hijacked = False,
      informational = [], panicked = None\<rparr>\<close>
  by (simp add: http_Error_def NewWriter_def Header_Del_def Header_Set_def canonical_keys
      WriteHeader_def Write_def Let_def checkWriteHeaderCode_def bodyAllowed_constants)

text \<open>
  Claim C1. With a credential configured, a request is answered with status 407 and the
  challenge header \<^verbatim>\<open>Proxy-Authenticate\<close> naming the realm, and causes no dial, no round
  trip and no relay (its trace is empty), when it has no \<^verbatim>\<open>Proxy-Authorization\<close> header,
  when the value of the header does not begin with \<^verbatim>\<open>Basic\<close> and one space, when what
  follows is not well-formed base64, or when it decodes to something else than the
  credential. A request whose header value is \<^verbatim>\<open>Basic\<close>, one space and the base64 encoding
  of the credential is handled as without the gate: by \<^verbatim>\<open>handleTunneling\<close> for CONNECT,
  by \<^verbatim>\<open>handleHTTP\<close> otherwise.
\<close>

theorem proxy_authentication:
  assumes "Auth Cfg \<noteq> []"
  shows \<open>(map_of (Header r) ''Proxy-Authorization'' = None
          \<or> \<not> prefix ''Basic '' (Header_Get (Header r) ''Proxy-Authorization'')
          \<or> (\<exists>p. Header_Get (Header r) ''Proxy-Authorization'' = ''Basic '' @ p
                \<and> (DecodeString p = None
                    \<or> (\<exists>payload. DecodeString p = Some payload \<and> payload \<noteq> Auth Cfg)))
          \<longrightarrow> status (writer (Handler Cfg e (NewWriter hij) r)) = StatusProxyAuthRequired
              \<and> map_of (sentHeader (writer (Handler Cfg e (NewWriter hij) r))) ''Proxy-Authenticate''
                  = Some [''Basic realm="WProxy Basic Authentication"'']
              \<and> trace (Handler Cfg e (NewWriter hij) r) = [])
       \<and> (Header_Get (Header r) ''Proxy-Authorization'' = ''Basic '' @ EncodeToString (Auth Cfg)
          \<longrightarrow> Handler Cfg e w r =
                (if Method r = ''CONNECT'' then handleTunneling Cfg e w r
                 else handleHTTP Cfg e w r))\<close>
proof (intro conjI impI)
  let ?auth = "Header_Get (Header r) ''Proxy-Authorization''"
  assume bad: "map_of (Header r) ''Proxy-Authorization'' = None
          \<or> \<not> prefix ''Basic '' ?auth
          \<or> (\<exists>p. ?auth = ''Basic '' @ p
                \<and> (DecodeString p = None
                    \<or> (\<exists>payload. DecodeString p = Some payload \<and> payload \<noteq> Auth Cfg)))"
  have "?auth = [] \<or> \<not> checkAuth Cfg ?auth"
    using bad
  proof (elim disjE exE conjE)
    assume "map_of (Header r) ''Proxy-Authorization'' = None"
    then show ?thesis by (simp add: Header_Get_absent)
  next
    assume "\<not> prefix ''Basic '' ?auth"
    then have "\<not> checkAuth Cfg ?auth"
      unfolding checkAuth_iff by (metis prefixI)
    then show ?thesis ..
  next
    fix p assume "?auth = ''Basic '' @ p" "DecodeString p = None"
    then have "\<not> checkAuth Cfg ?auth"
      unfolding checkAuth_iff by auto
    then show ?thesis ..
  next
    fix p payload
    assume "?auth = ''Basic '' @ p" "DecodeString p = Some payload" "payload \<noteq> Auth Cfg"
    then have "\<not> checkAuth Cfg ?auth"
      unfolding checkAuth_iff by auto
    then show ?thesis ..
  qed
  with assms have rej: \<open>Handler Cfg e (NewWriter hij) r =
     \<lparr>writer = http_Error ((NewWriter hij)\<lparr>handlerHeader := Header_Set (handlerHeader (NewWriter hij)) ''Proxy-Authenticate''
                          ''Basic realm="WProxy Basic Authentication"''\<rparr>)
                 ''Authorization required'' StatusProxyAuthRequired,
      trace = []\<rparr>\<close>
    by (rule Handler_rejects)
  show "status (writer (Handler Cfg e (NewWriter hij) r)) = StatusProxyAuthRequired"
    unfolding rej by (simp add: challenge_NewWriter)
  show \<open>map_of (sentHeader (writer (Handler Cfg e (NewWriter hij) r))) ''Proxy-Authenticate''
                  = Some [''Basic realm="WProxy Basic Authentication"'']\<close>
    unfolding rej by (simp add: challenge_NewWriter)
  show "trace (Handler Cfg e (NewWriter hij) r) = []"
    unfolding rej by simp
next
  let ?auth = "Header_Get (Header r) ''Proxy-Authorization''"
  assume good: "?auth = ''Basic '' @ EncodeToString (Auth Cfg)"
  then have "checkAuth Cfg ?auth"
    unfolding checkAuth_iff by (simp add: DecodeString_EncodeToString)
  moreover from good have "?auth \<noteq> []" by simp
  ultimately show "Handler Cfg e w r =
                (if Method r = ''CONNECT'' then handleTunneling Cfg e w r
                 else handleHTTP Cfg e w r)"
    by (intro Handler_dispatches) simp
qed

theorem proxy_authentication_witness:
  "Auth cfg0 \<noteq> []
   \<and> map_of (Header (get_request\<lparr>Header := []\<rparr>)) ''Proxy-Authorization'' = None
   \<and> status (writer (Handler cfg0 origin_201 (NewWriter None) (get_request\<lparr>Header := []\<rparr>))) = 407
   \<and> trace (Handler cfg0 origin_201 (NewWriter None) (get_request\<lparr>Header := []\<rparr>)) = []
   \<and> Header_Get (Header get_request) ''Proxy-Authorization'' = ''Basic '' @ EncodeToString (Auth cfg0)
   \<and> Handler cfg0 origin_201 (NewWriter None) get_request
       = handleHTTP cfg0 origin_201 (NewWriter None) get_request"
proof -
  have 1: "Auth cfg0 \<noteq> []" by (simp add: cfg0_def)
  have 2: "map_of (Header (get_request\<lparr>Header := []\<rparr>)) ''Proxy-Authorization'' = None"
    by simp
  from EncodeToString_example have 3: "Header_Get (Header get_request) ''Proxy-Authorization''
      = ''Basic '' @ EncodeToString (Auth cfg0)"
    by (simp add: get_request_def cfg0_def Header_Get_def canonical_keys)
  have 4: "Method get_request \<noteq> ''CONNECT''" by (simp add: get_request_def)
  from proxy_authentication [OF 1, where r = "get_request\<lparr>Header := []\<rparr>" and e = origin_201
      and hij = None] 2
  have "status (writer (Handler cfg0 origin_201 (NewWriter None) (get_request\<lparr>Header := []\<rparr>))) = 407
      \<and> trace (Handler cfg0 origin_201 (NewWriter None) (get_request\<lparr>Header := []\<rparr>)) = []"
    by blast
  moreover from proxy_authentication [OF 1, where r = get_request and e = origin_201
      and w = "NewWriter None"] 3 4
  have "Handler cfg0 origin_201 (NewWriter None) get_request
       = handleHTTP cfg0 origin_201 (NewWriter None) get_request"
    by simp
  ultimately show ?thesis using 1 2 3 by blast
qed

text \<open>Every run of \<^verbatim>\<open>handleTunneling\<close> dials, every run of \<^verbatim>\<open>handleHTTP\<close> forwards.\<close>

lemma handleTunneling_dials: "Dial ''tcp'' (Host r) 10 \<in> set (trace (handleTunneling Cfg e w r))"
  by (simp add: handleTunneling_def Let_def split: sum.splits prod.splits)

lemma handleHTTP_forwards_some: "Forward (outbound Cfg req) \<in> set (trace (handleHTTP Cfg e w req))"
  by (simp add: handleHTTP_outbound Let_def split: sum.splits)

text \<open>
  Claim C7. The handler decides on the credential first. When a credential is configured
  and the request fails the check, the reply is the 407 challenge and the trace is empty:
  nothing was dialed or forwarded. In every other case the handler does exactly what
  \<^verbatim>\<open>handleTunneling\<close> does (for the method CONNECT) or what \<^verbatim>\<open>handleHTTP\<close> does (for
  any other method), on the writer as it was handed in; the dial and the round trip happen
  there.
\<close>

theorem gate_before_dispatch:
  \<open>(if Auth Cfg \<noteq> []
        \<and> (Header_Get (Header r) ''Proxy-Authorization'' = []
            \<or> \<not> checkAuth Cfg (Header_Get (Header r) ''Proxy-Authorization''))
     then trace (Handler Cfg e w r) = []
        \<and> writer (Handler Cfg e w r) =
            http_Error
              (w\<lparr>handlerHeader := Header_Set (handlerHeader w) ''Proxy-Authenticate''
                                    ''Basic realm="WProxy Basic Authentication"''\<rparr>)
              ''Authorization required'' StatusProxyAuthRequired
     else if Method r = ''CONNECT''
       then Handler Cfg e w r = handleTunneling Cfg e w r
          \<and> Dial ''tcp'' (Host r) 10 \<in> set (trace (Handler Cfg e w r))
       else Handler Cfg e w r = handleHTTP Cfg e w r
          \<and> Forward (outbound Cfg r) \<in> set (trace (Handler Cfg e w r)))\<close>
  by (simp add: Handler_def Let_def handleTunneling_dials handleHTTP_forwards_some)

theorem gate_before_dispatch_witness:
  "Auth cfg0 \<noteq> []
   \<and> checkAuth cfg0 (Header_Get (Header connect_request) ''Proxy-Authorization'')
   \<and> Handler cfg0 origin_201 (NewWriter None) connect_request
       = handleTunneling cfg0 origin_201 (NewWriter None) connect_request
   \<and> trace (Handler cfg0 origin_201 (NewWriter None) (connect_request\<lparr>Header := []\<rparr>)) = []"
proof -
  have 1: "Auth cfg0 \<noteq> []" by (simp add: cfg0_def)
  from EncodeToString_example have "Header_Get (Header connect_request) ''Proxy-Authorization''
      = ''Basic '' @ EncodeToString (Auth cfg0)"
    by (simp add: connect_request_def cfg0_def Header_Get_def canonical_keys)
  then have 2: "checkAuth cfg0 (Header_Get (Header connect_request) ''Proxy-Authorization'')"
     and 3: "Header_Get (Header connect_request) ''Proxy-Authorization'' \<noteq> []"
    by (simp_all add: checkAuth_iff DecodeString_EncodeToString)
  have 4: "Method connect_request = ''CONNECT''" by (simp add: connect_request_def)
  have 5: "Header_Get (Header (connect_request\<lparr>Header := []\<rparr>)) ''Proxy-Authorization'' = []"
    by (simp add: Header_Get_def)
  from gate_before_dispatch [of cfg0 connect_request origin_201 "NewWriter None"] 1 2 3 4
  have "Handler cfg0 origin_201 (NewWriter None) connect_request
       = handleTunneling cfg0 origin_201 (NewWriter None) connect_request"
    by simp
  moreover from gate_before_dispatch [of cfg0 "connect_request\<lparr>Header := []\<rparr>" origin_201
      "NewWriter None"] 1 5
  have "trace (Handler cfg0 origin_201 (NewWriter None) (connect_request\<lparr>Header := []\<rparr>)) = []"
    by simp
  ultimately show ?thesis using 1 2 by blast
qed

subsection \<open>The relay: what holds at every moment\<close>

lemma closed_conn_Close: "closed (conn_Close c cs c') = (c' = c \<or> closed (cs c'))"
  by (simp add: conn_Close_def Let_def)

lemma closings_conn_Close:
  "closings (conn_Close c cs c') =
     (if c' = c \<and> \<not> closed (cs c) then closings (cs c) + 1 else closings (cs c'))"
  by (simp add: conn_Close_def Let_def)

text \<open>A step of \<^verbatim>\<open>transfer\<close> keeps the connections of the goroutine and never reopens one.\<close>

lemma transfer_fields:
  "transfer ev g cs = (g', cs') \<Longrightarrow> destination g' = destination g \<and> source g' = source g"
  by (auto simp: transfer_def split: pc.splits io_event.splits if_splits)

lemma transfer_closed_mono:
  "transfer ev g cs = (g', cs') \<Longrightarrow> closed (cs c) \<Longrightarrow> closed (cs' c)"
  by (auto simp: transfer_def closed_conn_Close split: pc.splits io_event.splits if_splits)

lemma transfer_closings:
  "transfer ev g cs = (g', cs') \<Longrightarrow>
   \<forall>c. closings (cs c) = (if closed (cs c) then 1 else 0) \<Longrightarrow>
   closings (cs' c) = (if closed (cs' c) then 1 else 0)"
  by (auto simp: transfer_def closed_conn_Close closings_conn_Close
      split: pc.splits io_event.splits if_splits)

lemma transfer_progress:
  "transfer ev g cs = (g', cs') \<Longrightarrow>
   (pc g = Closing_destination \<or> pc g = Returned \<longrightarrow> closed (cs (source g))) \<Longrightarrow>
   (pc g = Returned \<longrightarrow> closed (cs (destination g))) \<Longrightarrow>
   (pc g' = Closing_destination \<or> pc g' = Returned \<longrightarrow> closed (cs' (source g')))
   \<and> (pc g' = Returned \<longrightarrow> closed (cs' (destination g')))"
  by (auto simp: transfer_def closed_conn_Close split: pc.splits io_event.splits if_splits)

lemma relay_inv_step: "relay_inv s \<Longrightarrow> relay_inv (step x s)"
proof -
  assume inv: "relay_inv s"
  obtain i ev where x: "x = (i, ev)" by (cases x)
  show ?thesis
  proof (cases "i < length (goroutines s)")
    case False
    with inv x show ?thesis by (simp add: step_def)
  next
    case True
    obtain g' cs' where t: "transfer ev (goroutines s ! i) (conns s) = (g', cs')"
      by (cases "transfer ev (goroutines s ! i) (conns s)")
    from True x t have s': "step x s = \<lparr>conns = cs', goroutines = (goroutines s)[i := g']\<rparr>"
      by (simp add: step_def)
    have gi: "goroutines s ! i \<in> set (goroutines s)" using True by simp
    have 1: "\<forall>c. closings (cs' c) = (if closed (cs' c) then 1 else 0)"
      using transfer_closings [OF t] inv by (simp add: relay_inv_def)
    have 2: "(pc g' = Closing_destination \<or> pc g' = Returned \<longrightarrow> closed (cs' (source g')))
             \<and> (pc g' = Returned \<longrightarrow> closed (cs' (destination g')))"
      using transfer_progress [OF t] inv gi unfolding relay_inv_def by blast
    have 3: "(pc g = Closing_destination \<or> pc g = Returned \<longrightarrow> closed (cs' (source g)))
             \<and> (pc g = Returned \<longrightarrow> closed (cs' (destination g)))"
      if "g \<in> set (goroutines s)" for g
      using that inv transfer_closed_mono [OF t] unfolding relay_inv_def by blast
    have "g = g' \<or> g \<in> set (goroutines s)" if "g \<in> set ((goroutines s)[i := g'])" for g
      using that set_update_subset_insert [of "goroutines s" i g'] by auto
    with 2 3 have "\<forall>g \<in> set ((goroutines s)[i := g']).
        (pc g = Closing_destination \<or> pc g = Returned \<longrightarrow> closed (cs' (source g)))
        \<and> (pc g = Returned \<longrightarrow> closed (cs' (destination g)))"
      by blast
    with 1 show ?thesis by (simp add: s' relay_inv_def)
  qed
qed

lemma relay_inv_run: "relay_inv s \<Longrightarrow> relay_inv (run sched s)"
  unfolding run_def by (induction sched arbitrary: s) (simp_all add: relay_inv_step)

lemma relay_inv_start:
  "list_all (\<lambda>g. pc g = Copying) gs \<Longrightarrow> relay_inv \<lparr>conns = (\<lambda>c. open_conn), goroutines = gs\<rparr>"
  by (auto simp: relay_inv_def open_conn_def list_all_iff)

text \<open>Steps change neither the number of the goroutines nor their connections.\<close>

lemma step_goroutines:
  "length (goroutines (step x s)) = length (goroutines s)
   \<and> map destination (goroutines (step x s)) = map destination (goroutines s)
   \<and> map source (goroutines (step x s)) = map source (goroutines s)"
proof -
  obtain i ev where x: "x = (i, ev)" by (cases x)
  show ?thesis
  proof (cases "i < length (goroutines s)")
    case False
    with x show ?thesis by (simp add: step_def)
  next
    case True
    obtain g' cs' where t: "transfer ev (goroutines s ! i) (conns s) = (g', cs')"
      by (cases "transfer ev (goroutines s ! i) (conns s)")
    from True x t have s': "step x s = \<lparr>conns = cs', goroutines = (goroutines s)[i := g']\<rparr>"
      by (simp add: step_def)
    from transfer_fields [OF t] True show ?thesis
      by (simp add: s' map_update list_update_same_conv)
  qed
qed

lemma run_goroutines:
  "length (goroutines (run sched s)) = length (goroutines s)
   \<and> map destination (goroutines (run sched s)) = map destination (goroutines s)
   \<and> map source (goroutines (run sched s)) = map source (goroutines s)"
  unfolding run_def by (induction sched arbitrary: s) (simp_all add: step_goroutines)

text \<open>
  When every goroutine of a relay has returned, every connection that some goroutine reads
  or writes is closed and was closed exactly once.
\<close>

lemma all_returned_closed_once:
  assumes "list_all (\<lambda>g. pc g = Copying) gs"
    and "all_returned (run sched \<lparr>conns = (\<lambda>c. open_conn), goroutines = gs\<rparr>)"
    and "c \<in> set (map destination gs) \<union> set (map source gs)"
  shows "closed (conns (run sched \<lparr>conns = (\<lambda>c. open_conn), goroutines = gs\<rparr>) c)
       \<and> closings (conns (run sched \<lparr>conns = (\<lambda>c. open_conn), goroutines = gs\<rparr>) c) = 1"
proof -
  let ?s = "run sched \<lparr>conns = (\<lambda>c. open_conn), goroutines = gs\<rparr>"
  have inv: "relay_inv ?s"
    using assms(1) by (intro relay_inv_run relay_inv_start)
  from run_goroutines [of sched "\<lparr>conns = (\<lambda>c. open_conn), goroutines = gs\<rparr>"]
  have "map destination (goroutines ?s) = map destination gs"
       "map source (goroutines ?s) = map source gs"
    by simp_all
  with assms(3) obtain g where g: "g \<in> set (goroutines ?s)" "destination g = c \<or> source g = c"
    by (metis (no_types, lifting) Un_iff imageE set_map)
  from assms(2) g(1) have "pc g = Returned"
    by (simp add: all_returned_def list_all_iff)
  with inv g have "closed (conns ?s c)"
    unfolding relay_inv_def by blast
  with inv show ?thesis
    by (simp add: relay_inv_def)
qed

subsection \<open>Counting the Close calls\<close>

lemma Close_calls_conn_Close:
  "Close_calls (conn_Close c cs c') = (if c' = c then Close_calls (cs c) + 1 else Close_calls (cs c'))"
  by (simp add: conn_Close_def Let_def)

lemma transfer_Close_calls:
  "transfer ev g cs = (g', cs') \<Longrightarrow>
   Close_calls (cs' c) + Close_calls_by g c = Close_calls (cs c) + Close_calls_by g' c"
  by (auto simp: transfer_def Close_calls_by_def Close_calls_conn_Close
      split: pc.splits io_event.splits if_splits)

lemma sum_list_map_update:
  fixes f :: "'a \<Rightarrow> nat"
  shows "i < length xs \<Longrightarrow>
    sum_list (map f (xs[i := x])) + f (xs ! i) = sum_list (map f xs) + f x"
proof (induction xs arbitrary: i)
  case Nil
  then show ?case by simp
next
  case (Cons y xs)
  then show ?case by (cases i) (auto simp: algebra_simps)
qed

lemma step_Close_calls:
  assumes "Close_calls (conns s c) = sum_list (map (\<lambda>g. Close_calls_by g c) (goroutines s))"
  shows "Close_calls (conns (step x s) c)
       = sum_list (map (\<lambda>g. Close_calls_by g c) (goroutines (step x s)))"
proof -
  obtain i ev where x: "x = (i, ev)" by (cases x)
  show ?thesis
  proof (cases "i < length (goroutines s)")
    case False
    with x assms show ?thesis by (simp add: step_def)
  next
    case True
    obtain g' cs' where t: "transfer ev (goroutines s ! i) (conns s) = (g', cs')"
      by (cases "transfer ev (goroutines s ! i) (conns s)")
    from True x t have s': "step x s = \<lparr>conns = cs', goroutines = (goroutines s)[i := g']\<rparr>"
      by (simp add: step_def)
    from sum_list_map_update [OF True, of "\<lambda>g. Close_calls_by g c" g']
      transfer_Close_calls [OF t, of c] assms
    show ?thesis by (simp add: s')
  qed
qed

lemma run_Close_calls:
  "Close_calls (conns s c) = sum_list (map (\<lambda>g. Close_calls_by g c) (goroutines s)) \<Longrightarrow>
   Close_calls (conns (run sched s) c)
     = sum_list (map (\<lambda>g. Close_calls_by g c) (goroutines (run sched s)))"
  unfolding run_def by (induction sched arbitrary: s) (simp_all add: step_Close_calls)

subsection \<open>The relay ends once one copy has ended\<close>

lemma run_append: "run (xs @ ys) s = run ys (run xs s)"
  by (simp add: run_def)

lemma run_Cons: "run (x # xs) s = run xs (step x s)"
  by (simp add: run_def)

lemma run_Nil: "run [] s = s"
  by (simp add: run_def)

lemma step_same:
  "i < length (goroutines s) \<Longrightarrow>
   goroutines (step (i, ev) s) ! i = fst (transfer ev (goroutines s ! i) (conns s))
   \<and> conns (step (i, ev) s) = snd (transfer ev (goroutines s ! i) (conns s))"
  by (simp add: step_def split: prod.splits)

lemma step_other: "j \<noteq> i \<Longrightarrow> goroutines (step (i, ev) s) ! j = goroutines s ! j"
  by (simp add: step_def split: prod.splits)

lemma transfer_pc:
  "pc g = Closing_source \<Longrightarrow> pc (fst (transfer ev g cs)) = Closing_destination"
  "pc g = Closing_destination \<Longrightarrow> pc (fst (transfer ev g cs)) = Returned"
  "pc g = Returned \<Longrightarrow> pc (fst (transfer ev g cs)) = Returned"
  by (simp_all add: transfer_def)

lemma transfer_source_closed:
  "closed (cs (source g)) \<Longrightarrow> pc (fst (transfer ev g cs)) \<noteq> Copying"
  by (simp add: transfer_def split: pc.splits)

text \<open>Two steps after its copy has ended, a goroutine has returned.\<close>

lemma returned_in_two:
  assumes "i < length (goroutines s)" and "pc (goroutines s ! i) \<noteq> Copying"
  shows "pc (goroutines (run [(i, e1), (i, e2)] s) ! i) = Returned"
proof -
  let ?next = "step (i, e1) s"
  have l1: "i < length (goroutines ?next)" using assms(1) by (simp add: step_goroutines)
  have "pc (goroutines ?next ! i) = Closing_destination \<or> pc (goroutines ?next ! i) = Returned"
    using assms by (cases "pc (goroutines s ! i)") (simp_all add: step_same transfer_pc)
  then have "pc (goroutines (step (i, e2) ?next) ! i) = Returned"
    using l1 by (auto simp: step_same transfer_pc)
  then show ?thesis by (simp add: run_Cons run_Nil)
qed

text \<open>A goroutine whose source is closed has returned three steps later.\<close>

lemma returned_in_three:
  assumes "j < length (goroutines s)" and "closed (conns s (source (goroutines s ! j)))"
  shows "pc (goroutines (run [(j, e1), (j, e2), (j, e3)] s) ! j) = Returned"
proof -
  let ?next = "step (j, e1) s"
  have l1: "j < length (goroutines ?next)" using assms(1) by (simp add: step_goroutines)
  have "pc (goroutines ?next ! j) \<noteq> Copying"
    using assms by (simp add: step_same transfer_source_closed)
  from returned_in_two [OF l1 this, of e2 e3] show ?thesis
    by (simp add: run_Cons)
qed

lemma returned_stays:
  assumes "i < length (goroutines s)" and "pc (goroutines s ! i) = Returned"
  shows "pc (goroutines (step x s) ! i) = Returned"
proof -
  obtain k ev where x: "x = (k, ev)" by (cases x)
  show ?thesis
  proof (cases "k = i")
    case True
    with assms x show ?thesis by (simp add: step_same transfer_pc)
  next
    case False
    with assms x show ?thesis by (simp add: step_other)
  qed
qed

subsection \<open>The relay of an established tunnel\<close>

lemma spawned_append: "spawned (xs @ ys) = spawned xs @ spawned ys"
  by (induction xs rule: spawned.induct) simp_all

text \<open>
  An established tunnel: the dial and the hijack succeeded. The reply has status 200, the
  writer is hijacked, and two goroutines copy, one in each direction.
\<close>

lemma tunnel_established:
  assumes "net_DialTimeout e (Host r) = Inr destConn"
  shows "tunnel (handleTunneling Cfg e (NewWriter (Some (Inr clientConn))) r) =
           \<lparr>conns = (\<lambda>c. open_conn),
            goroutines = [go_transfer destConn clientConn, go_transfer clientConn destConn]\<rparr>"
    and "status (writer (handleTunneling Cfg e (NewWriter (Some (Inr clientConn))) r)) = StatusOK"
    and "hijacked (writer (handleTunneling Cfg e (NewWriter (Some (Inr clientConn))) r))"
  using assms
  by (simp_all add: tunnel_def handleTunneling_def Let_def NewWriter_def WriteHeader_def
      checkWriteHeaderCode_def
      Hijack_def spawned_append received_def)

text \<open>
  When both goroutines of a tunnel have returned, both connections are closed, and each
  was closed once.
\<close>

lemma tunnel_returned_closed_once:
  assumes "net_DialTimeout e (Host r) = Inr destConn"
    and "all_returned (run sched (tunnel (handleTunneling Cfg e (NewWriter (Some (Inr clientConn))) r)))"
  shows "closed (conns (run sched (tunnel (handleTunneling Cfg e (NewWriter (Some (Inr clientConn))) r))) destConn)
       \<and> closings (conns (run sched (tunnel (handleTunneling Cfg e (NewWriter (Some (Inr clientConn))) r))) destConn) = 1
       \<and> closed (conns (run sched (tunnel (handleTunneling Cfg e (NewWriter (Some (Inr clientConn))) r))) clientConn)
       \<and> closings (conns (run sched (tunnel (handleTunneling Cfg e (NewWriter (Some (Inr clientConn))) r))) clientConn) = 1"
proof -
  let ?gs = "[go_transfer destConn clientConn, go_transfer clientConn destConn]"
  have t: "tunnel (handleTunneling Cfg e (NewWriter (Some (Inr clientConn))) r) =
      \<lparr>conns = (\<lambda>c. open_conn), goroutines = ?gs\<rparr>"
    using assms(1) by (rule tunnel_established)
  have start: "list_all (\<lambda>g. pc g = Copying) ?gs"
    by (simp add: go_transfer_def)
  have "destConn \<in> set (map destination ?gs) \<union> set (map source ?gs)"
       "clientConn \<in> set (map destination ?gs) \<union> set (map source ?gs)"
    by (simp_all add: go_transfer_def)
  with all_returned_closed_once [OF start] assms(2) show ?thesis
    unfolding t by blast
qed

text \<open>At no moment of a tunnel has a connection been closed more than once.\<close>

lemma tunnel_closed_at_most_once:
  assumes "net_DialTimeout e (Host r) = Inr destConn"
  shows "closings (conns (run sched
           (tunnel (handleTunneling Cfg e (NewWriter (Some (Inr clientConn))) r))) c) \<le> 1"
proof -
  let ?gs = "[go_transfer destConn clientConn, go_transfer clientConn destConn]"
  have t: "tunnel (handleTunneling Cfg e (NewWriter (Some (Inr clientConn))) r) =
      \<lparr>conns = (\<lambda>c. open_conn), goroutines = ?gs\<rparr>"
    using assms by (rule tunnel_established)
  have "relay_inv (run sched \<lparr>conns = (\<lambda>c. open_conn), goroutines = ?gs\<rparr>)"
    by (intro relay_inv_run relay_inv_start) (simp add: go_transfer_def)
  then show ?thesis
    unfolding t by (simp add: relay_inv_def)
qed

text \<open>
  Each of the two goroutines calls \<^verbatim>\<open>Close\<close> on both connections, so a connection has
  received two calls when both have returned; the second one found it closed.
\<close>

lemma tunnel_Close_calls:
  assumes "net_DialTimeout e (Host r) = Inr destConn" and "destConn \<noteq> clientConn"
    and "all_returned (run sched (tunnel (handleTunneling Cfg e (NewWriter (Some (Inr clientConn))) r)))"
  shows "Close_calls (conns (run sched (tunnel (handleTunneling Cfg e (NewWriter (Some (Inr clientConn))) r))) destConn) = 2
       \<and> Close_calls (conns (run sched (tunnel (handleTunneling Cfg e (NewWriter (Some (Inr clientConn))) r))) clientConn) = 2"
proof -
  let ?gs = "[go_transfer destConn clientConn, go_transfer clientConn destConn]"
  let ?init = "\<lparr>conns = (\<lambda>c. open_conn), goroutines = ?gs\<rparr>"
  let ?s = "run sched ?init"
  have t: "tunnel (handleTunneling Cfg e (NewWriter (Some (Inr clientConn))) r) = ?init"
    using assms(1) by (rule tunnel_established)
  from run_goroutines [of sched ?init]
  have shape: "length (goroutines ?s) = 2"
    "map destination (goroutines ?s) = [destConn, clientConn]"
    "map source (goroutines ?s) = [clientConn, destConn]"
    by (simp_all add: go_transfer_def)
  then obtain a b where ab: "goroutines ?s = [a, b]"
    by (metis (no_types, lifting) length_0_conv length_Suc_conv numeral_2_eq_2)
  from assms(3) have ret: "pc a = Returned" "pc b = Returned"
    by (simp_all add: t ab all_returned_def)
  from shape(2,3) have f: "destination a = destConn" "source a = clientConn"
    "destination b = clientConn" "source b = destConn"
    by (simp_all add: ab)
  have calls: "Close_calls (conns ?s c) = sum_list (map (\<lambda>g. Close_calls_by g c) (goroutines ?s))"
    for c
    by (rule run_Close_calls) (simp add: open_conn_def Close_calls_by_def go_transfer_def)
  from assms(2) show ?thesis
    unfolding t by (auto simp: calls ab Close_calls_by_def ret f)
qed

text \<open>
  Once the copy of one goroutine of a tunnel has ended, by the end of the stream or by an
  error, two more steps of this goroutine and three of the other bring both to their return,
  whatever the copy of the other one meets.
\<close>

lemma tunnel_relay_ends:
  assumes "net_DialTimeout e (Host r) = Inr destConn"
    and "i < 2" and "j = 1 - i"
    and "pc (goroutines (run sched (tunnel (handleTunneling Cfg e (NewWriter (Some (Inr clientConn))) r))) ! i)
           \<noteq> Copying"
  shows "all_returned (run (sched @ [(i, e1), (i, e2), (j, e3), (j, e4), (j, e5)])
           (tunnel (handleTunneling Cfg e (NewWriter (Some (Inr clientConn))) r)))"
proof -
  let ?gs = "[go_transfer destConn clientConn, go_transfer clientConn destConn]"
  let ?init = "\<lparr>conns = (\<lambda>c. open_conn), goroutines = ?gs\<rparr>"
  let ?s = "run sched ?init"
  let ?mid = "run [(i, e1), (i, e2)] ?s"
  let ?fin = "run [(j, e3), (j, e4), (j, e5)] ?mid"
  have t: "tunnel (handleTunneling Cfg e (NewWriter (Some (Inr clientConn))) r) = ?init"
    using assms(1) by (rule tunnel_established)
  have ij: "i \<noteq> j" "j < 2" using assms(2,3) by arith+
  have shape: "length (goroutines s') = 2"
    "map destination (goroutines s') = [destConn, clientConn]"
    "map source (goroutines s') = [clientConn, destConn]"
    if "s' = run x ?init" for s' x
    using run_goroutines [of x ?init] that by (simp_all add: go_transfer_def)
  have s1: "?mid = run (sched @ [(i, e1), (i, e2)]) ?init"
    by (simp add: run_append)
  have s2: "?fin = run (sched @ [(i, e1), (i, e2), (j, e3), (j, e4), (j, e5)]) ?init"
    by (simp add: run_append run_Cons run_Nil)
  have inv1: "relay_inv ?mid"
    unfolding s1 by (intro relay_inv_run relay_inv_start) (simp add: go_transfer_def)
  have i_ret: "pc (goroutines ?mid ! i) = Returned"
    using assms(2,4) shape(1) [OF refl, of sched] unfolding t by (intro returned_in_two) simp_all
  have len1: "length (goroutines ?mid) = 2" using shape(1) [OF s1] .
  have "goroutines ?mid ! i \<in> set (goroutines ?mid)"
    using assms(2) len1 by simp
  with inv1 i_ret have cl: "closed (conns ?mid (source (goroutines ?mid ! i)))"
    "closed (conns ?mid (destination (goroutines ?mid ! i)))"
    unfolding relay_inv_def by blast+
  have "source (goroutines ?mid ! j) = destination (goroutines ?mid ! i)"
  proof -
    have "map source (goroutines ?mid) ! j = map destination (goroutines ?mid) ! i"
      using assms(2,3) shape(2,3) [OF s1] by (cases i) (auto simp: less_2_cases_iff)
    then show ?thesis using len1 assms(2) ij by simp
  qed
  with cl have "closed (conns ?mid (source (goroutines ?mid ! j)))" by simp
  then have j_ret: "pc (goroutines ?fin ! j) = Returned"
    using ij len1 by (intro returned_in_three) simp_all
  have i_ret2: "pc (goroutines ?fin ! i) = Returned"
    using i_ret assms(2) len1
    by (simp add: run_Cons run_Nil returned_stays step_goroutines)
  have len2: "length (goroutines ?fin) = 2" using shape(1) [OF s2] .
  have "pc (goroutines ?fin ! k) = Returned" if "k < 2" for k
  proof -
    from that assms(2,3) have "k = i \<or> k = j" by arith
    with i_ret2 j_ret show ?thesis by blast
  qed
  with len2 have "all_returned ?fin"
    by (simp add: all_returned_def list_all_length)
  then show ?thesis unfolding t s2 .
qed

text \<open>
  The goroutine whose copy has ended closes both connections itself, in its next two
  steps, whatever the other goroutine does.
\<close>

lemma tunnel_ended_closes_both:
  assumes "net_DialTimeout e (Host r) = Inr destConn"
    and "i < 2"
    and "pc (goroutines (run sched (tunnel (handleTunneling Cfg e (NewWriter (Some (Inr clientConn))) r))) ! i)
           \<noteq> Copying"
  shows "closed (conns (run (sched @ [(i, e1), (i, e2)])
           (tunnel (handleTunneling Cfg e (NewWriter (Some (Inr clientConn))) r))) destConn)
       \<and> closed (conns (run (sched @ [(i, e1), (i, e2)])
           (tunnel (handleTunneling Cfg e (NewWriter (Some (Inr clientConn))) r))) clientConn)"
proof -
  let ?gs = "[go_transfer destConn clientConn, go_transfer clientConn destConn]"
  let ?init = "\<lparr>conns = (\<lambda>c. open_conn), goroutines = ?gs\<rparr>"
  let ?mid = "run (sched @ [(i, e1), (i, e2)]) ?init"
  have t: "tunnel (handleTunneling Cfg e (NewWriter (Some (Inr clientConn))) r) = ?init"
    using assms(1) by (rule tunnel_established)
  have shape: "length (goroutines (run x ?init)) = 2"
    "map destination (goroutines (run x ?init)) = [destConn, clientConn]"
    "map source (goroutines (run x ?init)) = [clientConn, destConn]" for x
    using run_goroutines [of x ?init] by (simp_all add: go_transfer_def)
  have inv: "relay_inv ?mid"
    by (intro relay_inv_run relay_inv_start) (simp add: go_transfer_def)
  have "pc (goroutines (run [(i, e1), (i, e2)] (run sched ?init)) ! i) = Returned"
    using assms(2,3) shape(1) [of sched] unfolding t by (intro returned_in_two) simp_all
  then have ret: "pc (goroutines ?mid ! i) = Returned"
    by (simp add: run_append)
  have "goroutines ?mid ! i \<in> set (goroutines ?mid)"
    using assms(2) shape(1) [of "sched @ [(i, e1), (i, e2)]"] by simp
  with inv ret have cl: "closed (conns ?mid (source (goroutines ?mid ! i)))"
    "closed (conns ?mid (destination (goroutines ?mid ! i)))"
    unfolding relay_inv_def by blast+
  have "map source (goroutines ?mid) ! i = source (goroutines ?mid ! i)"
       "map destination (goroutines ?mid) ! i = destination (goroutines ?mid ! i)"
    using assms(2) shape(1) [of "sched @ [(i, e1), (i, e2)]"] by simp_all
  with shape(2,3) [of "sched @ [(i, e1), (i, e2)]"] assms(2)
  have "{source (goroutines ?mid ! i), destination (goroutines ?mid ! i)} = {destConn, clientConn}"
    by (cases i) (auto simp: less_2_cases_iff)
  with cl have "closed (conns ?mid destConn) \<and> closed (conns ?mid clientConn)"
    by (metis insert_iff singletonD)
  then show ?thesis unfolding t .
qed

text \<open>
  Claim C5. In an established tunnel, take any moment at which the copy of one goroutine
  has ended, after any interleaving of the steps of the two goroutines and for any cause
  (end of stream, read error, write error). The goroutine that has ended closes both
  connections in its next two steps. After three steps of the other goroutine, whatever its
  copy meets, both goroutines have returned, and the destination connection and the client
  connection are closed, each having gone from open to closed exactly once. At no moment of
  any run has a connection been closed more than once. (Each goroutine calls \<^verbatim>\<open>Close\<close>
  on both connections; the call that comes second finds the connection closed and has no
  effect, see \<open>tunnel_Close_calls\<close>.)
\<close>

theorem tunnel_connections_closed_once:
  assumes "net_DialTimeout e (Host r) = Inr destConn"
    and "i < 2" and "j = 1 - i"
    and "pc (goroutines (run sched (tunnel (handleTunneling Cfg e (NewWriter (Some (Inr clientConn))) r))) ! i)
           \<noteq> Copying"
  shows "closed (conns (run (sched @ [(i, e1), (i, e2)])
           (tunnel (handleTunneling Cfg e (NewWriter (Some (Inr clientConn))) r))) destConn)
       \<and> closed (conns (run (sched @ [(i, e1), (i, e2)])
           (tunnel (handleTunneling Cfg e (NewWriter (Some (Inr clientConn))) r))) clientConn)
       \<and> all_returned (run (sched @ [(i, e1), (i, e2), (j, e3), (j, e4), (j, e5)])
           (tunnel (handleTunneling Cfg e (NewWriter (Some (Inr clientConn))) r)))
       \<and> closed (conns (run (sched @ [(i, e1), (i, e2), (j, e3), (j, e4), (j, e5)])
           (tunnel (handleTunneling Cfg e (NewWriter (Some (Inr clientConn))) r))) destConn)
       \<and> closings (conns (run (sched @ [(i, e1), (i, e2), (j, e3), (j, e4), (j, e5)])
           (tunnel (handleTunneling Cfg e (NewWriter (Some (Inr clientConn))) r))) destConn) = 1
       \<and> closed (conns (run (sched @ [(i, e1), (i, e2), (j, e3), (j, e4), (j, e5)])
           (tunnel (handleTunneling Cfg e (NewWriter (Some (Inr clientConn))) r))) clientConn)
       \<and> closings (conns (run (sched @ [(i, e1), (i, e2), (j, e3), (j, e4), (j, e5)])
           (tunnel (handleTunneling Cfg e (NewWriter (Some (Inr clientConn))) r))) clientConn) = 1
       \<and> (\<forall>sched' c. closings (conns (run sched'
           (tunnel (handleTunneling Cfg e (NewWriter (Some (Inr clientConn))) r))) c) \<le> 1)"
proof -
  note both = tunnel_ended_closes_both [OF assms(1,2,4), of e1 e2]
  have ret: "all_returned (run (sched @ [(i, e1), (i, e2), (j, e3), (j, e4), (j, e5)])
           (tunnel (handleTunneling Cfg e (NewWriter (Some (Inr clientConn))) r)))"
    using assms by (rule tunnel_relay_ends)
  note once = tunnel_returned_closed_once [OF assms(1) ret]
  have "\<forall>sched' c. closings (conns (run sched'
           (tunnel (handleTunneling Cfg e (NewWriter (Some (Inr clientConn))) r))) c) \<le> 1"
    using tunnel_closed_at_most_once [OF assms(1)] by blast
  with both ret once show ?thesis by blast
qed

theorem tunnel_connections_closed_once_witness:
  "net_DialTimeout origin_201 (Host connect_request) = Inr (Conn 2)
   \<and> pc (goroutines (run destination_ends_first
         (tunnel (handleTunneling cfg0 origin_201 (NewWriter (Some (Inr (Conn 1)))) connect_request))) ! 1)
       \<noteq> Copying
   \<and> closed (conns (run (destination_ends_first @ [(1, Read_EOF), (1, Read_EOF)])
         (tunnel (handleTunneling cfg0 origin_201 (NewWriter (Some (Inr (Conn 1)))) connect_request)))
         (Conn 1))
   \<and> all_returned (run (destination_ends_first
           @ [(1, Read_EOF), (1, Read_EOF), (0, Copied ''abc''), (0, Read_EOF), (0, Read_EOF)])
         (tunnel (handleTunneling cfg0 origin_201 (NewWriter (Some (Inr (Conn 1)))) connect_request)))
   \<and> closings (conns (run (destination_ends_first
           @ [(1, Read_EOF), (1, Read_EOF), (0, Copied ''abc''), (0, Read_EOF), (0, Read_EOF)])
         (tunnel (handleTunneling cfg0 origin_201 (NewWriter (Some (Inr (Conn 1)))) connect_request)))
         (Conn 2)) = 1
   \<and> closings (conns (run (destination_ends_first
           @ [(1, Read_EOF), (1, Read_EOF), (0, Copied ''abc''), (0, Read_EOF), (0, Read_EOF)])
         (tunnel (handleTunneling cfg0 origin_201 (NewWriter (Some (Inr (Conn 1)))) connect_request)))
         (Conn 1)) = 1"
proof -
  have 1: "net_DialTimeout origin_201 (Host connect_request) = Inr (Conn 2)"
    by (simp add: origin_201_def)
  have 2: "(1::nat) < 2" by simp
  have 3: "(0::nat) = 1 - 1" by simp
  have 4: "pc (goroutines (run destination_ends_first
         (tunnel (handleTunneling cfg0 origin_201 (NewWriter (Some (Inr (Conn 1)))) connect_request))) ! 1)
       \<noteq> Copying"
    unfolding tunnel_established(1) [OF 1]
    by (simp add: destination_ends_first_def run_def step_def transfer_def go_transfer_def
        open_conn_def Let_def)
  from tunnel_connections_closed_once [OF 1 2 3 4, of Read_EOF Read_EOF "Copied ''abc''" Read_EOF Read_EOF]
    1 4
  show ?thesis by blast
qed

end
